theory Spec2Isabelle
  imports Main "HOL-Library.AList"
begin

section \<open>The tensor runtime, as far as the orchestration layer drives it\<close>

text \<open>
  The module \<^verbatim>\<open>pytorch_wrapper/system.py\<close> holds the class \<^verbatim>\<open>System\<close> (the model
  facade) and the class \<^verbatim>\<open>_Trainer\<close> (the training engine). Both drive external
  collaborators: the tensor runtime, the model, the loss wrapper, the optimizer, the
  evaluators and the callbacks. The collaborators are modelled by what the engine can
  observe of them: an opaque payload for a tensor, a response function for an object
  that is called, and a log of the calls the engine makes.
\<close>

datatype torch_device = CPU | CUDA | CUDA_index nat

datatype tensor = Tensor (payload: nat) (placed: torch_device)

datatype exn =
    AssertionError
  | KeyError string
  | ZeroDivisionError
  | AttributeError
  | RuntimeError
  | Raised string

text \<open>A batch is a dict from a key to one tensor or to a list/tuple of tensors.\<close>

datatype batch_input = Single tensor | Many "tensor list"

type_synonym batch = "(string \<times> batch_input) list"

type_synonym activation = nat

type_synonym result = nat

text \<open>
  An \<^verbatim>\<open>nn.Module\<close>: the number of \<^verbatim>\<open>nn.DataParallel\<close> layers wrapped around it,
  the device it resides on, its mode flag (\<^verbatim>\<open>model.train(flag)\<close>), its parameters
  (the entries of the innermost module's \<^verbatim>\<open>state_dict()\<close>) and what a call of it
  answers.
\<close>

record model =
  wrap :: nat
  resident :: torch_device
  training :: bool
  params :: "(string \<times> nat) list"
  forward :: "tensor list \<Rightarrow> exn + tensor"

record system =
  model :: model
  last_activation :: "activation option"
  device :: torch_device

text \<open>
  The training context is the dict \<^verbatim>\<open>_Trainer.training_context\<close>. Its entry
  \<^verbatim>\<open>'system'\<close> refers to the facade, so a hook that receives the context reaches the
  facade too. The entries \<^verbatim>\<open>'loss_wrapper'\<close> and \<^verbatim>\<open>'optimizer'\<close> refer to
  collaborators that stay fixed during a run; they are parameters of the trainer below.
  The field \<open>extra\<close> stands for whatever else a callback keeps (further keys of the dict,
  attributes of the callback object).
\<close>

record 'x training_context =
  system :: system
  results_history :: "(string \<times> (string \<times> result) list) list list"
  stop_training :: bool
  current_epoch :: int
  current_batch :: "batch option"
  current_output :: "tensor option"
  current_loss :: "tensor option"
  extra :: 'x

text \<open>The calls the engine makes, in the order it makes them.\<close>

datatype hook =
    on_training_start
  | on_training_end
  | on_epoch_start
  | on_epoch_end
  | on_batch_start
  | post_predict
  | post_loss_calculation
  | post_backward_calculation
  | pre_optimization_step
  | on_batch_end
  | on_evaluation_start
  | on_evaluation_end

datatype event =
    Hook hook string
  | ReadStop bool
  | ModelTrain bool
  | ZeroGrad
  | OptimizerStep
  | PredictBatch bool
  | CalculateLoss
  | Backward
  | LossItem
  | EvaluatorReset string
  | EvaluatorStep string
  | EvaluatorCalculate string
  | HistoryAppend

text \<open>
  The state of the program: the context (with the facade), the log of calls, and the
  runtime's global gradient-tracking switch (\<^verbatim>\<open>torch.no_grad()\<close> turns it off for the
  extent of a \<^verbatim>\<open>with\<close> block).
\<close>

record 'x state =
  training_context :: "'x training_context"
  trace :: "event list"
  grad_enabled :: bool

subsection \<open>Statements that may raise\<close>

text \<open>
  A statement takes the state and gives the state it leaves behind together with either
  the exception it raised (\<open>Inl\<close>) or the value it returned (\<open>Inr\<close>). What was mutated
  before an exception stays mutated.
\<close>

type_synonym ('x, 'a) prog = "'x state \<Rightarrow> (exn + 'a) \<times> 'x state"

definition ret :: "'a \<Rightarrow> ('x, 'a) prog" where
  "ret a = (\<lambda>s. (Inr a, s))"

definition raise :: "exn \<Rightarrow> ('x, 'a) prog" where
  "raise e = (\<lambda>s. (Inl e, s))"

definition pbind :: "('x, 'a) prog \<Rightarrow> ('a \<Rightarrow> ('x, 'b) prog) \<Rightarrow> ('x, 'b) prog" where
  "pbind m f = (\<lambda>s. case m s of (Inl e, s') \<Rightarrow> (Inl e, s') | (Inr a, s') \<Rightarrow> f a s')"

definition pseq :: "('x, unit) prog \<Rightarrow> ('x, 'b) prog \<Rightarrow> ('x, 'b) prog" where
  "pseq m n = pbind m (\<lambda>_. n)"

definition log :: "event \<Rightarrow> ('x, unit) prog" where
  "log e = (\<lambda>s. (Inr (), s\<lparr>trace := trace s @ [e]\<rparr>))"

definition modify_context ::
  "('x training_context \<Rightarrow> 'x training_context) \<Rightarrow> ('x, unit) prog" where
  "modify_context f = (\<lambda>s. (Inr (), s\<lparr>training_context := f (training_context s)\<rparr>))"

definition modify_system :: "(system \<Rightarrow> system) \<Rightarrow> ('x, unit) prog" where
  "modify_system f = modify_context (\<lambda>c. c\<lparr>system := f (system c)\<rparr>)"

definition the_system :: "'x state \<Rightarrow> system" where
  "the_system s = system (training_context s)"

text \<open>\<^verbatim>\<open>d[key]\<close> on a dict raises \<^verbatim>\<open>KeyError\<close> for a missing key.\<close>

definition getitem :: "(string \<times> 'a) list \<Rightarrow> string \<Rightarrow> ('x, 'a) prog" where
  "getitem d k = (case map_of d k of None \<Rightarrow> raise (KeyError k) | Some v \<Rightarrow> ret v)"

text \<open>
  \<^verbatim>\<open>with torch.no_grad(): body\<close> switches gradient tracking off, runs the body and
  puts the switch back on every exit of the block.
\<close>

definition no_grad :: "('x, 'a) prog \<Rightarrow> ('x, 'a) prog" where
  "no_grad body = (\<lambda>s.
     case body (s\<lparr>grad_enabled := False\<rparr>) of
       (r, s') \<Rightarrow> (r, s'\<lparr>grad_enabled := grad_enabled s\<rparr>))"

section \<open>The model facade: class System\<close>

text \<open>
  \<^verbatim>\<open>model.to(device)\<close> moves a module in place and answers the module;
  \<^verbatim>\<open>model.train(flag)\<close> sets its mode; \<^verbatim>\<open>nn.DataParallel(model, ...)\<close> wraps it and
  \<^verbatim>\<open>.module\<close> of the wrapper is the wrapped module (a plain module has no such
  attribute).
\<close>

definition model_to :: "torch_device \<Rightarrow> model \<Rightarrow> model" where
  "model_to d m = m\<lparr>resident := d\<rparr>"

definition DataParallel :: "model \<Rightarrow> model" where
  "DataParallel m = m\<lparr>wrap := Suc (wrap m)\<rparr>"

definition model_train :: "bool \<Rightarrow> ('x, unit) prog" where
  "model_train flag =
     pseq (log (ModelTrain flag))
          (modify_system (\<lambda>sys. sys\<lparr>model := (model sys)\<lparr>training := flag\<rparr>\<rparr>))"

definition System_init :: "model \<Rightarrow> activation option \<Rightarrow> torch_device \<Rightarrow> system" where
  "System_init m act d =
     \<lparr>model = (model_to d m)\<lparr>training := False\<rparr>, last_activation = act, device = d\<rparr>"

definition to :: "torch_device \<Rightarrow> ('x, unit) prog" where
  "to d = modify_system (\<lambda>sys. sys\<lparr>model := model_to d (model sys), device := d\<rparr>)"

text \<open>
  \<^verbatim>\<open>predict_batch\<close>: a single input is put into a list, every input is moved to the
  facade's device, and the model is called on the inputs.
\<close>

definition tensor_to :: "torch_device \<Rightarrow> tensor \<Rightarrow> tensor" where
  "tensor_to d t = Tensor (payload t) d"

definition as_list :: "batch_input \<Rightarrow> tensor list" where
  "as_list single_batch_input =
     (case single_batch_input of Single t \<Rightarrow> [t] | Many ts \<Rightarrow> ts)"

definition predict_batch :: "batch_input \<Rightarrow> ('x, tensor) prog" where
  "predict_batch single_batch_input = (\<lambda>s.
     let batch_inputs = map (tensor_to (device (the_system s))) (as_list single_batch_input)
     in pseq (log (PredictBatch (grad_enabled s)))
             (\<lambda>s'. (forward (model (the_system s')) batch_inputs, s')) s)"

subsection \<open>Evaluators\<close>

text \<open>
  An evaluator is an object with the methods \<^verbatim>\<open>reset()\<close>,
  \<^verbatim>\<open>step(outputs, batch, last_activation)\<close> and \<^verbatim>\<open>calculate()\<close>. Its state is the
  list of the calls it has received; \<open>respond\<close> gives what the last call of such a list
  does: raise, or return a value (which the engine reads for \<^verbatim>\<open>calculate()\<close> only).
  The dict of evaluators is an association list from the evaluator's name to the object,
  in the dict's iteration order. A statement that calls evaluators gives the objects
  back as the calls have left them; when it raises, the objects are not followed further.
\<close>

datatype evaluator_call =
    Reset
  | Step tensor batch "activation option"
  | Calculate

record evaluator =
  received :: "evaluator_call list"
  respond :: "evaluator_call list \<Rightarrow> exn + result"

type_synonym evaluators = "(string \<times> evaluator) list"

fun call_event :: "evaluator_call \<Rightarrow> string \<Rightarrow> event" where
  "call_event Reset name = EvaluatorReset name"
| "call_event (Step out b act) name = EvaluatorStep name"
| "call_event Calculate name = EvaluatorCalculate name"

definition call_evaluator ::
  "evaluator_call \<Rightarrow> string \<Rightarrow> evaluator \<Rightarrow> ('x, evaluator \<times> result) prog" where
  "call_evaluator c name ev =
     pseq (log (call_event c name))
          (case respond ev (received ev @ [c]) of
             Inl e \<Rightarrow> raise e
           | Inr r \<Rightarrow> ret (ev\<lparr>received := received ev @ [c]\<rparr>, r))"

text \<open>
  \<^verbatim>\<open>for evaluator_name in evaluators: evaluators[evaluator_name].call(...)\<close>: the
  objects after the calls, and what each call returned.
\<close>

fun call_evaluators ::
  "evaluator_call \<Rightarrow> evaluators \<Rightarrow> ('x, evaluators \<times> (string \<times> result) list) prog" where
  "call_evaluators c [] = ret ([], [])"
| "call_evaluators c ((name, ev) # rest) =
     pbind (call_evaluator c name ev) (\<lambda>(ev', r).
     pbind (call_evaluators c rest) (\<lambda>(rest', rs).
     ret ((name, ev') # rest', (name, r) # rs)))"

text \<open>The loop of \<^verbatim>\<open>evaluate\<close> over the batches of the data loader.\<close>

fun evaluate_batches :: "batch list \<Rightarrow> evaluators \<Rightarrow> string \<Rightarrow> ('x, evaluators) prog" where
  "evaluate_batches [] evs batch_input_key = ret evs"
| "evaluate_batches (b # bs) evs batch_input_key =
     pbind (getitem b batch_input_key) (\<lambda>inp.
     pbind (predict_batch inp) (\<lambda>outputs.
     pbind (\<lambda>s. call_evaluators (Step outputs b (last_activation (the_system s))) evs s)
       (\<lambda>(evs', _). evaluate_batches bs evs' batch_input_key)))"

text \<open>
  \<^verbatim>\<open>results[evaluator_name] = ...\<close> for each name in turn, from the empty dict.
\<close>

definition as_dict :: "(string \<times> 'a) list \<Rightarrow> (string \<times> 'a) list" where
  "as_dict kvs = fold (\<lambda>(k, v) d. AList.update k v d) kvs []"

definition evaluate ::
  "batch list \<Rightarrow> evaluators \<Rightarrow> string \<Rightarrow> ('x, (string \<times> result) list \<times> evaluators) prog" where
  "evaluate data_loader evs batch_input_key =
     pseq (model_train False)
     (pbind (call_evaluators Reset evs) (\<lambda>(evs1, _).
      pbind (no_grad (evaluate_batches data_loader evs1 batch_input_key)) (\<lambda>evs2.
      pbind (call_evaluators Calculate evs2) (\<lambda>(evs3, rs).
      ret (as_dict rs, evs3)))))"

section \<open>The training engine: class _Trainer\<close>

text \<open>
  A callback is an object with one method per hook; every method receives the training
  context, may mutate it (and, through it, the facade) and may raise. What a hook
  returns is ignored. \<open>is_stopping_criterion\<close> says whether the callback's class derives
  from \<^verbatim>\<open>StoppingCriterionCallback\<close>; \<open>cb_name\<close> identifies the object in the log of
  calls.

  What the engine prints (the progress bar, the epoch banner, the elapsed time, the
  evaluators' results) changes nothing it computes and is left out. The optimizer is
  known by the calls it receives, \<^verbatim>\<open>zero_grad()\<close> and \<^verbatim>\<open>step()\<close>; a loss by its
  \<^verbatim>\<open>backward()\<close> and its \<^verbatim>\<open>item()\<close>.
\<close>

record 'x callback =
  cb_name :: string
  is_stopping_criterion :: bool
  run_hook :: "hook \<Rightarrow> 'x training_context \<Rightarrow> (exn + unit) \<times> 'x training_context"

text \<open>
  The loss wrapper's \<^verbatim>\<open>calculate_loss(output, batch, training_context, last_activation)\<close>
  receives the context as well.
\<close>

record 'x trainer =
  calculate_loss ::
    "tensor option \<Rightarrow> batch \<Rightarrow> 'x training_context \<Rightarrow> activation option
       \<Rightarrow> (exn + tensor) \<times> 'x training_context"
  train_data_loader :: "batch list"
  evaluation_data_loaders :: "(string \<times> batch list) list option"
  batch_input_key :: string
  evaluators :: "evaluators option"
  callbacks :: "'x callback list"
  gradient_accumulation_steps :: int

text \<open>\<^verbatim>\<open>for callback in self.callbacks: callback.hook(self.training_context)\<close>\<close>

definition call_hook :: "hook \<Rightarrow> 'x callback \<Rightarrow> ('x, unit) prog" where
  "call_hook h cb =
     pseq (log (Hook h (cb_name cb)))
          (\<lambda>s. case run_hook cb h (training_context s) of
                  (r, c) \<Rightarrow> (r, s\<lparr>training_context := c\<rparr>))"

fun for_callbacks :: "hook \<Rightarrow> 'x callback list \<Rightarrow> ('x, unit) prog" where
  "for_callbacks h [] = ret ()"
| "for_callbacks h (cb # cbs) = pseq (call_hook h cb) (for_callbacks h cbs)"

subsection \<open>The batch step\<close>

definition loss_call :: "'x trainer \<Rightarrow> batch \<Rightarrow> ('x, tensor) prog" where
  "loss_call tr b =
     pseq (log CalculateLoss)
          (\<lambda>s. let c = training_context s in
                case calculate_loss tr (current_output c) b c (last_activation (system c)) of
                  (r, c') \<Rightarrow> (r, s\<lparr>training_context := c'\<rparr>))"

text \<open>
  \<^verbatim>\<open>self.training_context['current_loss'].backward()\<close> and \<^verbatim>\<open>.item()\<close>: a context whose
  loss a callback has set to \<^verbatim>\<open>None\<close> has no such method.
\<close>

definition loss_backward :: "('x, unit) prog" where
  "loss_backward = (\<lambda>s.
     case current_loss (training_context s) of
       None \<Rightarrow> raise AttributeError s
     | Some l \<Rightarrow> log Backward s)"

definition loss_item :: "('x, nat) prog" where
  "loss_item = (\<lambda>s.
     case current_loss (training_context s) of
       None \<Rightarrow> raise AttributeError s
     | Some l \<Rightarrow> pseq (log LossItem) (ret (payload l)) s)"

definition train_batch :: "'x trainer \<Rightarrow> batch \<Rightarrow> bool \<Rightarrow> ('x, nat) prog" where
  "train_batch tr b perform_opt_step =
     pseq (modify_context (\<lambda>c. c\<lparr>current_batch := Some b\<rparr>))
    (pseq (for_callbacks on_batch_start (callbacks tr))
    (pbind (getitem b (batch_input_key tr)) (\<lambda>inp.
     pbind (predict_batch inp) (\<lambda>out.
     pseq (modify_context (\<lambda>c. c\<lparr>current_output := Some out\<rparr>))
    (pseq (modify_context (\<lambda>c. c\<lparr>current_batch := None\<rparr>))
    (pseq (for_callbacks post_predict (callbacks tr))
    (pbind (loss_call tr b) (\<lambda>l.
     pseq (modify_context (\<lambda>c. c\<lparr>current_loss := Some l\<rparr>))
    (pseq (modify_context (\<lambda>c. c\<lparr>current_output := None\<rparr>))
    (pseq (for_callbacks post_loss_calculation (callbacks tr))
    (pseq loss_backward
    (pseq (for_callbacks post_backward_calculation (callbacks tr))
    (pseq (if perform_opt_step
           then pseq (for_callbacks pre_optimization_step (callbacks tr))
               (pseq (log OptimizerStep) (log ZeroGrad))
           else ret ())
    (pbind loss_item (\<lambda>cur_batch_loss.
     pseq (for_callbacks on_batch_end (callbacks tr))
    (pseq (modify_context (\<lambda>c. c\<lparr>current_loss := None\<rparr>))
    (ret cur_batch_loss)))))))))))))))))"

subsection \<open>The epoch step\<close>

text \<open>
  \<^verbatim>\<open>(i % self.gradient_accumulation_steps == 0) or (i == (len(self.train_data_loader) - 1))\<close>:
  the remainder is computed first, and raises for a step count of zero. Python's \<^verbatim>\<open>%\<close>
  takes the sign of the divisor, as \<open>mod\<close> on \<open>int\<close> does. The data loader is the list of
  the batches it yields, so its \<^verbatim>\<open>len\<close> is the length of the list.
\<close>

definition perform_opt_step :: "'x trainer \<Rightarrow> nat \<Rightarrow> ('x, bool) prog" where
  "perform_opt_step tr i =
     (if gradient_accumulation_steps tr = 0 then raise ZeroDivisionError
      else ret (int i mod gradient_accumulation_steps tr = 0
                \<or> int i = int (length (train_data_loader tr)) - 1))"

text \<open>
  \<^verbatim>\<open>for i, batch in enumerate(self.train_data_loader)\<close>, from index \<open>i\<close> on. The running
  sum of the losses only feeds the progress bar, which is left out.
\<close>

fun train_batches :: "'x trainer \<Rightarrow> nat \<Rightarrow> batch list \<Rightarrow> ('x, unit) prog" where
  "train_batches tr i [] = ret ()"
| "train_batches tr i (b # bs) =
     pbind (perform_opt_step tr i) (\<lambda>p.
     pbind (train_batch tr b p) (\<lambda>cur_batch_loss.
     train_batches tr (Suc i) bs))"

definition train_epoch :: "'x trainer \<Rightarrow> ('x, unit) prog" where
  "train_epoch tr =
     pseq (modify_context (\<lambda>c. c\<lparr>current_epoch := current_epoch c + 1\<rparr>))
    (pseq (model_train True)
    (pseq (for_callbacks on_epoch_start (callbacks tr))
    (pseq (log ZeroGrad)
    (pseq (train_batches tr 0 (train_data_loader tr))
          (for_callbacks on_epoch_end (callbacks tr))))))"

subsection \<open>Evaluation after an epoch\<close>

fun evaluate_datasets ::
  "'x trainer \<Rightarrow> (string \<times> batch list) list \<Rightarrow> evaluators
     \<Rightarrow> (string \<times> (string \<times> result) list) list
     \<Rightarrow> ('x, (string \<times> (string \<times> result) list) list \<times> evaluators) prog" where
  "evaluate_datasets tr [] evs current_results = ret (current_results, evs)"
| "evaluate_datasets tr ((current_dataset_name, dl) # rest) evs current_results =
     pbind (evaluate dl evs (batch_input_key tr)) (\<lambda>(current_dataset_results, evs').
     evaluate_datasets tr rest evs'
       (AList.update current_dataset_name current_dataset_results current_results))"

text \<open>
  The evaluator objects are mutated by the calls; the step takes the objects as they are
  and gives them back as they have become.
\<close>

definition train_evaluation ::
  "'x trainer \<Rightarrow> evaluators option \<Rightarrow> ('x, evaluators option) prog" where
  "train_evaluation tr evs_opt =
     (case (evaluation_data_loaders tr, evs_opt) of
        (Some dls, Some evs) \<Rightarrow>
          pseq (for_callbacks on_evaluation_start (callbacks tr))
         (pbind (evaluate_datasets tr dls evs []) (\<lambda>(current_results, evs').
          pseq (log HistoryAppend)
         (pseq (modify_context
                  (\<lambda>c. c\<lparr>results_history := results_history c @ [current_results]\<rparr>))
         (pseq (for_callbacks on_evaluation_end (callbacks tr))
               (ret (Some evs'))))))
      | _ \<Rightarrow> ret evs_opt)"

subsection \<open>The driver\<close>

text \<open>
  \<^verbatim>\<open>while not self.training_context['stop_training']\<close> may run forever; the loop takes
  fuel, and \<open>None\<close> says that the fuel ran out before the loop ended. Every reading of the
  flag is logged.
\<close>

fun training_loop ::
  "nat \<Rightarrow> 'x trainer \<Rightarrow> evaluators option \<Rightarrow> 'x state
     \<Rightarrow> ((exn + evaluators option) \<times> 'x state) option" where
  "training_loop 0 tr evs s = None"
| "training_loop (Suc fuel) tr evs s =
     (let stop = stop_training (training_context s);
          s0 = s\<lparr>trace := trace s @ [ReadStop stop]\<rparr>
      in if stop then Some (Inr evs, s0)
         else case pbind (train_epoch tr) (\<lambda>_. train_evaluation tr evs) s0 of
                (Inl e, s1) \<Rightarrow> Some (Inl e, s1)
              | (Inr evs', s1) \<Rightarrow> training_loop fuel tr evs' s1)"

definition run ::
  "nat \<Rightarrow> 'x trainer \<Rightarrow> 'x state
     \<Rightarrow> ((exn + (string \<times> (string \<times> result) list) list list) \<times> 'x state) option" where
  "run fuel tr s =
     (case for_callbacks on_training_start (callbacks tr) s of
        (Inl e, s1) \<Rightarrow> Some (Inl e, s1)
      | (Inr _, s1) \<Rightarrow>
          (case training_loop fuel tr (evaluators tr) s1 of
             None \<Rightarrow> None
           | Some (Inl e, s2) \<Rightarrow> Some (Inl e, s2)
           | Some (Inr _, s2) \<Rightarrow>
               Some (pseq (for_callbacks on_training_end (callbacks tr))
                    (pseq (model_train False)
                          (\<lambda>s. (Inr (results_history (training_context s)), s))) s2)))"

subsection \<open>Construction of the trainer\<close>

text \<open>
  Modelled from the spec: the class \<^verbatim>\<open>NumberOfEpochsStoppingCriterionCallback\<close> is
  imported from \<^verbatim>\<open>training_callbacks.py\<close>, which is not among the sources. The spec
  calls it the default ``stop after N epochs'' criterion, a stopping criterion being a
  callback that sets the halt flag from within a hook, idiomatically \<^verbatim>\<open>on_epoch_end\<close>:
  at the end of an epoch it sets the flag once \<open>N\<close> epochs have been run (the epoch index
  counts from zero).
\<close>

definition NumberOfEpochsStoppingCriterionCallback :: "int \<Rightarrow> 'x callback" where
  "NumberOfEpochsStoppingCriterionCallback nb_of_epochs =
     \<lparr>cb_name = ''NumberOfEpochsStoppingCriterionCallback'',
      is_stopping_criterion = True,
      run_hook = (\<lambda>h c.
        if h = on_epoch_end \<and> current_epoch c + 1 \<ge> nb_of_epochs
        then (Inr (), c\<lparr>stop_training := True\<rparr>)
        else (Inr (), c))\<rparr>"

definition Trainer_context :: "system \<Rightarrow> 'x \<Rightarrow> 'x training_context" where
  "Trainer_context sys x =
     \<lparr>system = sys,
      results_history = [],
      stop_training = False,
      current_epoch = - 1,
      current_batch = None,
      current_output = None,
      current_loss = None,
      extra = x\<rparr>"

text \<open>
  \<^verbatim>\<open>self.callbacks = callbacks\<close> binds the list object the caller passed, and
  \<^verbatim>\<open>self.callbacks.append(...)\<close> mutates that object. The constructor gives the trainer
  and the content of the caller's list object afterwards (\<open>None\<close> when the caller passed
  no list).
\<close>

definition Trainer_init ::
  "(tensor option \<Rightarrow> batch \<Rightarrow> 'x training_context \<Rightarrow> activation option
      \<Rightarrow> (exn + tensor) \<times> 'x training_context)
   \<Rightarrow> batch list \<Rightarrow> (string \<times> batch list) list option \<Rightarrow> string \<Rightarrow> evaluators option
   \<Rightarrow> 'x callback list option \<Rightarrow> int
   \<Rightarrow> 'x trainer \<times> 'x callback list option" where
  "Trainer_init loss_wrapper dl eval_dls key evs cbs k =
     (let (own, callers) =
        (case cbs of
           None \<Rightarrow> ([NumberOfEpochsStoppingCriterionCallback 1], None)
         | Some l \<Rightarrow>
             if \<not> list_ex is_stopping_criterion l
             then (l @ [NumberOfEpochsStoppingCriterionCallback 1],
                   Some (l @ [NumberOfEpochsStoppingCriterionCallback 1]))
             else (l, Some l))
      in (\<lparr>calculate_loss = loss_wrapper,
           train_data_loader = dl,
           evaluation_data_loaders = eval_dls,
           batch_input_key = key,
           evaluators = evs,
           callbacks = own,
           gradient_accumulation_steps = k\<rparr>, callers))"

section \<open>Training through the facade\<close>

text \<open>
  \<^verbatim>\<open>System.train\<close> builds a trainer around the facade and runs it. The result comes
  with the caller's callback list as the call leaves it.
\<close>

definition train ::
  "nat
   \<Rightarrow> (tensor option \<Rightarrow> batch \<Rightarrow> 'x training_context \<Rightarrow> activation option
      \<Rightarrow> (exn + tensor) \<times> 'x training_context)
   \<Rightarrow> batch list \<Rightarrow> (string \<times> batch list) list option \<Rightarrow> string \<Rightarrow> evaluators option
   \<Rightarrow> 'x callback list option \<Rightarrow> int \<Rightarrow> 'x state
   \<Rightarrow> ((exn + (string \<times> (string \<times> result) list) list list) \<times> 'x state) option
      \<times> 'x callback list option" where
  "train fuel loss_wrapper dl eval_dls key evs cbs k s =
     (let (trainer, cbs') = Trainer_init loss_wrapper dl eval_dls key evs cbs k;
          c = training_context s
      in (run fuel trainer (s\<lparr>training_context := Trainer_context (system c) (extra c)\<rparr>),
          cbs'))"

text \<open>\<^verbatim>\<open>self.model = self.model.module\<close>\<close>

definition unwrap_model :: "('x, unit) prog" where
  "unwrap_model = (\<lambda>s.
     if wrap (model (the_system s)) = 0 then raise AttributeError s
     else modify_system (\<lambda>sys. sys\<lparr>model := (model sys)\<lparr>wrap := wrap (model sys) - 1\<rparr>\<rparr>) s)"

text \<open>
  \<^verbatim>\<open>train_on_multi_gpus\<close>: \<open>cuda_is_available\<close> is what \<^verbatim>\<open>torch.cuda.is_available()\<close>
  answers. Of the arguments of the replication layer only the output device reaches the
  facade. The method has no \<^verbatim>\<open>return\<close> statement.
\<close>

definition train_on_multi_gpus ::
  "nat \<Rightarrow> bool
   \<Rightarrow> (tensor option \<Rightarrow> batch \<Rightarrow> 'x training_context \<Rightarrow> activation option
      \<Rightarrow> (exn + tensor) \<times> 'x training_context)
   \<Rightarrow> batch list \<Rightarrow> (string \<times> batch list) list option \<Rightarrow> string \<Rightarrow> evaluators option
   \<Rightarrow> 'x callback list option \<Rightarrow> int \<Rightarrow> torch_device option \<Rightarrow> 'x state
   \<Rightarrow> ((exn + unit) \<times> 'x state) option \<times> 'x callback list option" where
  "train_on_multi_gpus fuel cuda_is_available loss_wrapper dl eval_dls key evs cbs k
       multi_gpu_output_device s =
     (if \<not> cuda_is_available then (Some (Inl AssertionError, s), cbs)
      else
        let s1 = snd (modify_system (\<lambda>sys. sys\<lparr>model := DataParallel (model sys)\<rparr>) s);
            temp_device = device (the_system s1);
            s2 = snd (to (case multi_gpu_output_device of Some d \<Rightarrow> d | None \<Rightarrow> CUDA) s1)
        in case train fuel loss_wrapper dl eval_dls key evs cbs k s2 of
             (None, cbs') \<Rightarrow> (None, cbs')
           | (Some (Inl e, s3), cbs') \<Rightarrow> (Some (Inl e, s3), cbs')
           | (Some (Inr _, s3), cbs') \<Rightarrow>
               (Some (pseq unwrap_model (to temp_device) s3), cbs'))"

section \<open>Loading the model's state\<close>

text \<open>
  What \<^verbatim>\<open>torch.load(f, map_location=torch.device('cpu'))\<close> finds in \<open>f\<close>: a saved
  state dict, or nothing it can read. The keys of a module's \<^verbatim>\<open>state_dict()\<close> carry
  one \<^verbatim>\<open>module.\<close> prefix per replication layer. \<^verbatim>\<open>load_state_dict\<close> copies the values
  of the keys it knows into the module's own parameters, and answers the missing and the
  unexpected keys, or raises when \<open>strict\<close> and there are any.
\<close>

datatype saved_file = StateFile "(string \<times> nat) list" | Unreadable

definition torch_load :: "saved_file \<Rightarrow> ('x, (string \<times> nat) list) prog" where
  "torch_load f = (case f of StateFile st \<Rightarrow> ret st | Unreadable \<Rightarrow> raise RuntimeError)"

definition state_key :: "model \<Rightarrow> string \<Rightarrow> string" where
  "state_key m k = concat (replicate (wrap m) ''module.'') @ k"

definition load_state_dict ::
  "model \<Rightarrow> (string \<times> nat) list \<Rightarrow> bool \<Rightarrow> (exn + string list \<times> string list) \<times> model" where
  "load_state_dict m st strict =
     (let own = map (\<lambda>(k, v). state_key m k) (params m);
          missing_keys = filter (\<lambda>k. k \<notin> set (map fst st)) own;
          unexpected_keys = filter (\<lambda>k. k \<notin> set own) (map fst st);
          m' = m\<lparr>params := map (\<lambda>(k, v).
                   (k, case map_of st (state_key m k) of Some v' \<Rightarrow> v' | None \<Rightarrow> v))
                 (params m)\<rparr>
      in if strict \<and> (missing_keys \<noteq> [] \<or> unexpected_keys \<noteq> [])
         then (Inl RuntimeError, m')
         else (Inr (missing_keys, unexpected_keys), m'))"

definition load_model_state :: "saved_file \<Rightarrow> bool \<Rightarrow> ('x, string list \<times> string list) prog" where
  "load_model_state f strict =
     pbind (torch_load f) (\<lambda>model_state. (\<lambda>s.
       let m = model (the_system s);
           model_state' =
             (if wrap m > 0 then map (\<lambda>(k, v). (''module.'' @ k, v)) model_state
              else model_state)
       in case load_state_dict m model_state' strict of
            (Inl e, m') \<Rightarrow>
              (Inl e, snd (modify_system (\<lambda>sys. sys\<lparr>model := m'\<rparr>) s))
          | (Inr invalid_keys, m') \<Rightarrow>
              (Inr invalid_keys,
               snd (modify_system
                      (\<lambda>sys. sys\<lparr>model := model_to (device sys) m'\<rparr>) s))))"

section \<open>What the claims speak of\<close>

subsection \<open>The calls of one batch, one epoch, one evaluation, one run\<close>

text \<open>
  A hook point calls every callback once, in the order of the list.
\<close>

definition hooks :: "hook \<Rightarrow> 'x callback list \<Rightarrow> event list" where
  "hooks h cbs = map (\<lambda>cb. Hook h (cb_name cb)) cbs"

text \<open>
  The gradient accumulation policy in the spec's words: the zero-based batch index
  modulo the step count is zero, or the batch is the last one of the epoch's \<open>n\<close>.
\<close>

definition optimization_boundary :: "int \<Rightarrow> nat \<Rightarrow> nat \<Rightarrow> bool" where
  "optimization_boundary k n i \<longleftrightarrow> int i mod k = 0 \<or> Suc i = n"

text \<open>
  The calls of a batch step, with gradient tracking \<open>g\<close>: the optimizer steps, and the
  gradients are reset, exactly when the batch is an optimization boundary.
\<close>

definition batch_events :: "'x callback list \<Rightarrow> bool \<Rightarrow> bool \<Rightarrow> event list" where
  "batch_events cbs g boundary =
     hooks on_batch_start cbs @ [PredictBatch g] @
     hooks post_predict cbs @ [CalculateLoss] @
     hooks post_loss_calculation cbs @ [Backward] @
     hooks post_backward_calculation cbs @
     (if boundary then hooks pre_optimization_step cbs @ [OptimizerStep, ZeroGrad] else []) @
     [LossItem] @ hooks on_batch_end cbs"

definition epoch_events :: "'x trainer \<Rightarrow> bool \<Rightarrow> event list" where
  "epoch_events tr g =
     [ModelTrain True] @ hooks on_epoch_start (callbacks tr) @ [ZeroGrad] @
     concat (map (\<lambda>i. batch_events (callbacks tr) g
                     (optimization_boundary (gradient_accumulation_steps tr)
                        (length (train_data_loader tr)) i))
                 [0..<length (train_data_loader tr)]) @
     hooks on_epoch_end (callbacks tr)"

definition evaluate_events :: "string list \<Rightarrow> batch list \<Rightarrow> event list" where
  "evaluate_events names dl =
     [ModelTrain False] @ map EvaluatorReset names @
     concat (map (\<lambda>b. PredictBatch False # map EvaluatorStep names) dl) @
     map EvaluatorCalculate names"

definition evaluation_events ::
  "'x callback list \<Rightarrow> (string \<times> batch list) list option \<Rightarrow> string list option
     \<Rightarrow> event list" where
  "evaluation_events cbs dls_opt names_opt =
     (case (dls_opt, names_opt) of
        (Some dls, Some names) \<Rightarrow>
          hooks on_evaluation_start cbs @
          concat (map (\<lambda>(n, dl). evaluate_events names dl) dls) @
          [HistoryAppend] @ hooks on_evaluation_end cbs
      | _ \<Rightarrow> [])"

definition names_of :: "evaluators option \<Rightarrow> string list option" where
  "names_of evs_opt = map_option (map fst) evs_opt"

text \<open>One turn of the driver's loop: the flag reads false, an epoch, its evaluation.\<close>

definition iteration_events :: "'x trainer \<Rightarrow> bool \<Rightarrow> event list" where
  "iteration_events tr g =
     ReadStop False # epoch_events tr g @
     evaluation_events (callbacks tr) (evaluation_data_loaders tr) (names_of (evaluators tr))"

text \<open>A run of \<open>m\<close> epochs.\<close>

definition run_events :: "'x trainer \<Rightarrow> bool \<Rightarrow> nat \<Rightarrow> event list" where
  "run_events tr g m =
     hooks on_training_start (callbacks tr) @
     concat (replicate m (iteration_events tr g)) @
     [ReadStop True] @ hooks on_training_end (callbacks tr) @ [ModelTrain False]"

subsection \<open>The order of the hooks, in the spec's words\<close>

fun is_hook :: "event \<Rightarrow> bool" where
  "is_hook (Hook h name) = True"
| "is_hook e = False"

definition evaluation_configured :: "'x trainer \<Rightarrow> bool" where
  "evaluation_configured tr \<longleftrightarrow>
     evaluation_data_loaders tr \<noteq> None \<and> evaluators tr \<noteq> None"





subsection \<open>What evaluation hands to the evaluators\<close>

text \<open>What \<^verbatim>\<open>self.predict_batch(batch[batch_input_key])\<close> answers for a batch.\<close>

definition model_output :: "system \<Rightarrow> string \<Rightarrow> batch \<Rightarrow> exn + tensor" where
  "model_output sys key b =
     (case map_of b key of
        None \<Rightarrow> Inl (KeyError key)
      | Some inp \<Rightarrow> forward (model sys) (map (tensor_to (device sys)) (as_list inp)))"

text \<open>Every evaluator of the dict has received the calls \<open>cs\<close>, in this order.\<close>

definition deliver :: "evaluator_call list \<Rightarrow> evaluators \<Rightarrow> evaluators" where
  "deliver cs evs = map (\<lambda>(n, ev). (n, ev\<lparr>received := received ev @ cs\<rparr>)) evs"

text \<open>\<open>rs\<close> holds, name by name, what the evaluators answered to their last call.\<close>

definition answered :: "evaluators \<Rightarrow> (string \<times> result) list \<Rightarrow> bool" where
  "answered evs rs \<longleftrightarrow>
     list_all2 (\<lambda>(n, ev) (n', r). n' = n \<and> respond ev (received ev) = Inr r) evs rs"

definition inference_mode :: "'x training_context \<Rightarrow> 'x training_context" where
  "inference_mode c =
     c\<lparr>system := (system c)\<lparr>model := (model (system c))\<lparr>training := False\<rparr>\<rparr>\<rparr>"

subsection \<open>What loading hands to the module\<close>

text \<open>
  The state dict as \<^verbatim>\<open>load_model_state\<close> hands it to the module (every key prefixed with
  \<^verbatim>\<open>module.\<close> when the model is wrapped in a replication layer), and the module with
  the values of that dict copied into the parameters it knows.
\<close>

definition file_state :: "model \<Rightarrow> (string \<times> nat) list \<Rightarrow> (string \<times> nat) list" where
  "file_state m st = (if 0 < wrap m then map (\<lambda>(k, v). (''module.'' @ k, v)) st else st)"

definition loaded :: "model \<Rightarrow> (string \<times> nat) list \<Rightarrow> model" where
  "loaded m st =
     m\<lparr>params := map (\<lambda>(k, v).
            (k, case map_of (file_state m st) (state_key m k) of Some v' \<Rightarrow> v' | None \<Rightarrow> v))
          (params m)\<rparr>"

subsection \<open>Properties of statements\<close>

text \<open>
  A statement that returns has added the calls \<open>es\<close> to the log and has left the
  gradient switch at \<open>g\<close>, where it found it.
\<close>

definition emits :: "bool \<Rightarrow> ('x, 'a) prog \<Rightarrow> event list \<Rightarrow> bool" where
  "emits g m es \<longleftrightarrow>
     (\<forall>s r s'. grad_enabled s = g \<longrightarrow> m s = (Inr r, s') \<longrightarrow>
        trace s' = trace s @ es \<and> grad_enabled s' = g)"

text \<open>
  The fields of the context that steer the engine: the halt flag, the epoch index and
  the results history. A statement lets a property of them stay when the property holds
  after the statement, however it ends, if it held before.
\<close>

definition control ::
  "'x training_context \<Rightarrow> bool \<times> int \<times> (string \<times> (string \<times> result) list) list list" where
  "control c = (stop_training c, current_epoch c, results_history c)"

definition stays ::
  "(bool \<times> int \<times> (string \<times> (string \<times> result) list) list list \<Rightarrow> bool)
     \<Rightarrow> ('x, 'a) prog \<Rightarrow> bool" where
  "stays P m \<longleftrightarrow>
     (\<forall>s r s'. P (control (training_context s)) \<longrightarrow> m s = (r, s') \<longrightarrow>
        P (control (training_context s')))"

definition hook_keeps ::
  "(bool \<times> int \<times> (string \<times> (string \<times> result) list) list list \<Rightarrow> bool)
     \<Rightarrow> hook \<Rightarrow> 'x callback \<Rightarrow> bool" where
  "hook_keeps P h cb \<longleftrightarrow>
     (\<forall>c r c'. P (control c) \<longrightarrow> run_hook cb h c = (r, c') \<longrightarrow> P (control c'))"

definition loss_keeps ::
  "(bool \<times> int \<times> (string \<times> (string \<times> result) list) list list \<Rightarrow> bool)
     \<Rightarrow> 'x trainer \<Rightarrow> bool" where
  "loss_keeps P tr \<longleftrightarrow>
     (\<forall>out b c act r c'. P (control c) \<longrightarrow> calculate_loss tr out b c act = (r, c') \<longrightarrow>
        P (control c'))"

text \<open>
  No callback and no loss computation of the trainer ever clears a halt flag that is set
  (the spec calls the flag write-once-true).
\<close>

definition keeps_halt :: "'x trainer \<Rightarrow> bool" where
  "keeps_halt tr \<longleftrightarrow>
     (\<forall>h. \<forall>cb\<in>set (callbacks tr). hook_keeps fst h cb) \<and> loss_keeps fst tr"

text \<open>
  No callback and no loss computation of the trainer writes the results history: the
  engine is its only writer.
\<close>

definition keeps_history :: "'x trainer \<Rightarrow> bool" where
  "keeps_history tr \<longleftrightarrow>
     (\<forall>H h. \<forall>cb\<in>set (callbacks tr). hook_keeps (\<lambda>v. snd (snd v) = H) h cb) \<and>
     (\<forall>H. loss_keeps (\<lambda>v. snd (snd v) = H) tr)"

text \<open>
  A callback, or a loss computation, that leaves the halt flag, the epoch index and the
  results history as it finds them: it is no stopping criterion in what it does either.
\<close>

definition quiet :: "'x callback \<Rightarrow> bool" where
  "quiet cb \<longleftrightarrow> (\<forall>h c r c'. run_hook cb h c = (r, c') \<longrightarrow> control c' = control c)"

definition quiet_loss ::
  "(tensor option \<Rightarrow> batch \<Rightarrow> 'x training_context \<Rightarrow> activation option
      \<Rightarrow> (exn + tensor) \<times> 'x training_context) \<Rightarrow> bool" where
  "quiet_loss lw \<longleftrightarrow>
     (\<forall>out b c act r c'. lw out b c act = (r, c') \<longrightarrow> control c' = control c)"

text \<open>The callbacks the caller supplied: none when no list was passed.\<close>

definition supplied :: "'x callback list option \<Rightarrow> 'x callback list" where
  "supplied cbs = (case cbs of None \<Rightarrow> [] | Some l \<Rightarrow> l)"

subsection \<open>A small concrete setting\<close>

text \<open>
  A model that answers the sum of its inputs, a loss wrapper that takes the output for
  the loss, batches with the one key \<^verbatim>\<open>input\<close>, and an evaluator that answers the
  number of calls it has received.
\<close>

definition demo_model :: model where
  "demo_model =
     \<lparr>wrap = 0, resident = CPU, training = False, params = [(''weight'', 1)],
      forward = (\<lambda>ts. Inr (Tensor (sum_list (map payload ts)) CPU))\<rparr>"

definition demo_state :: "unit state" where
  "demo_state =
     \<lparr>training_context = Trainer_context (System_init demo_model None CPU) (),
      trace = [], grad_enabled = True\<rparr>"

definition demo_batch :: "nat \<Rightarrow> batch" where
  "demo_batch i = [(''input'', Single (Tensor i CPU))]"

definition demo_loss ::
  "tensor option \<Rightarrow> batch \<Rightarrow> unit training_context \<Rightarrow> activation option
     \<Rightarrow> (exn + tensor) \<times> unit training_context" where
  "demo_loss out b c act =
     (case out of None \<Rightarrow> (Inl AttributeError, c) | Some t \<Rightarrow> (Inr t, c))"

definition demo_trainer :: "int \<Rightarrow> batch list \<Rightarrow> unit trainer" where
  "demo_trainer k dl = fst (Trainer_init demo_loss dl None ''input'' None None k)"

definition demo_evaluator :: evaluator where
  "demo_evaluator = \<lparr>received = [], respond = (\<lambda>cs. Inr (length cs))\<rparr>"

text \<open>A callback that does nothing, and is no stopping criterion.\<close>

definition demo_callback :: "unit callback" where
  "demo_callback =
     \<lparr>cb_name = ''logger'', is_stopping_criterion = False,
      run_hook = (\<lambda>h c. (Inr (), c))\<rparr>"

definition two :: "batch list" where
  "two = [demo_batch 0, demo_batch 1]"

definition five :: "batch list" where
  "five = [demo_batch 0, demo_batch 1, demo_batch 2, demo_batch 3, demo_batch 4]"

text \<open>A data loader whose only batch lacks the key \<^verbatim>\<open>input\<close>.\<close>

definition keyless :: "batch list" where
  "keyless = [[(''features'', Single (Tensor 0 CPU))]]"

text \<open>
  A trainer with evaluation configured: one evaluation data loader of one batch, and the
  evaluator under the name \<^verbatim>\<open>acc\<close>.
\<close>

definition demo_eval_trainer :: "unit trainer" where
  "demo_eval_trainer =
     fst (Trainer_init demo_loss two (Some [(''dev'', [demo_batch 7])]) ''input''
            (Some [(''acc'', demo_evaluator)]) None 1)"

definition four :: "batch list" where
  "four = [demo_batch 0, demo_batch 1, demo_batch 2, demo_batch 3]"

text \<open>
  The concrete state after \<^verbatim>\<open>system.model.to('cuda')\<close> was called on the model itself:
  the model resides on CUDA while the facade still records the CPU.
\<close>

definition demo_moved :: "unit state" where
  "demo_moved = snd (modify_system (\<lambda>sys. sys\<lparr>model := model_to CUDA (model sys)\<rparr>) demo_state)"

section \<open>Lemmas about statements\<close>

subsection \<open>The calls a statement logs\<close>

lemma pbind_Inr:
  "pbind m f s = (Inr b, s') \<longleftrightarrow> (\<exists>a s1. m s = (Inr a, s1) \<and> f a s1 = (Inr b, s'))"
  by (auto simp: pbind_def split: prod.splits sum.splits)

lemma pseq_Inr:
  "pseq m n s = (Inr b, s') \<longleftrightarrow> (\<exists>s1. m s = (Inr (), s1) \<and> n s1 = (Inr b, s'))"
  by (simp add: pseq_def pbind_Inr)

lemma ret_Inr: "ret a s = (Inr b, s') \<longleftrightarrow> b = a \<and> s' = s"
  by (auto simp: ret_def)

lemma raise_Inr: "raise e s = (Inr b, s') \<longleftrightarrow> False"
  by (simp add: raise_def)

lemma log_Inr: "log e s = (Inr u, s') \<longleftrightarrow> s' = s\<lparr>trace := trace s @ [e]\<rparr>"
  by (auto simp: log_def)

lemma pbind_ret: "pbind (ret a) f = f a"
  by (simp add: pbind_def ret_def)

lemma pbind_raise: "pbind (raise e) f = raise e"
  by (simp add: pbind_def raise_def)

lemma emitsD:
  "emits g m es \<Longrightarrow> grad_enabled s = g \<Longrightarrow> m s = (Inr r, s') \<Longrightarrow>
     trace s' = trace s @ es \<and> grad_enabled s' = g"
  unfolding emits_def by blast

lemma emits_ret: "emits g (ret a) []"
  by (simp add: emits_def ret_Inr)

lemma emits_raise: "emits g (raise e) es"
  by (simp add: emits_def raise_Inr)

lemma emits_log: "emits g (log e) [e]"
  by (simp add: emits_def log_Inr)

lemma emits_modify_context: "emits g (modify_context f) []"
  by (auto simp: emits_def modify_context_def)

lemma emits_modify_system: "emits g (modify_system f) []"
  by (simp add: modify_system_def emits_modify_context)

lemma emits_pbind:
  assumes "emits g m es" and "\<And>a. emits g (f a) es'"
  shows "emits g (pbind m f) (es @ es')"
  unfolding emits_def
proof (intro allI impI)
  fix s r s'
  assume g: "grad_enabled s = g" and run: "pbind m f s = (Inr r, s')"
  from run obtain a s1 where a: "m s = (Inr a, s1)" and b: "f a s1 = (Inr r, s')"
    by (auto simp: pbind_Inr)
  from emitsD[OF assms(1) g a] have 1: "trace s1 = trace s @ es" "grad_enabled s1 = g"
    by simp_all
  from emitsD[OF assms(2) 1(2) b] 1(1)
  show "trace s' = trace s @ es @ es' \<and> grad_enabled s' = g" by simp
qed

lemma emits_pseq:
  "emits g m es \<Longrightarrow> emits g n es' \<Longrightarrow> emits g (pseq m n) (es @ es')"
  by (simp add: pseq_def emits_pbind)

lemma emits_if:
  "emits g m es \<Longrightarrow> emits g n es' \<Longrightarrow>
     emits g (if p then m else n) (if p then es else es')"
  by simp

lemma emits_eq: "emits g m es \<Longrightarrow> es = es' \<Longrightarrow> emits g m es'"
  by simp

lemma emits_call_hook: "emits g (call_hook h cb) [Hook h (cb_name cb)]"
  by (auto simp: emits_def call_hook_def pseq_Inr log_Inr split: prod.splits)

lemma emits_for_callbacks: "emits g (for_callbacks h cbs) (hooks h cbs)"
proof (induction cbs)
  case Nil
  show ?case by (simp add: hooks_def emits_ret)
next
  case (Cons cb cbs)
  from emits_pseq[OF emits_call_hook Cons.IH]
  show ?case by (simp add: hooks_def)
qed

lemma emits_getitem: "emits g (getitem d k) []"
  by (simp add: getitem_def emits_ret emits_raise split: option.splits)

lemma emits_predict_batch: "emits g (predict_batch inp) [PredictBatch g]"
  by (auto simp: emits_def predict_batch_def Let_def pseq_Inr log_Inr)

lemma emits_loss_call: "emits g (loss_call tr b) [CalculateLoss]"
  by (auto simp: emits_def loss_call_def Let_def pseq_Inr log_Inr split: prod.splits)

lemma emits_loss_backward: "emits g loss_backward [Backward]"
  by (auto simp: emits_def loss_backward_def log_Inr raise_Inr split: option.splits)

lemma emits_loss_item: "emits g loss_item [LossItem]"
  by (auto simp: emits_def loss_item_def pseq_Inr ret_Inr log_Inr raise_Inr split: option.splits)

lemma emits_model_train: "emits g (model_train flag) [ModelTrain flag]"
  unfolding model_train_def
  by (rule emits_eq, rule emits_pseq, rule emits_log, rule emits_modify_system) simp

lemma emits_train_batch:
  "emits g (train_batch tr b p) (batch_events (callbacks tr) g p)"
  unfolding train_batch_def
  apply (rule emits_eq)
   apply (rule emits_pseq emits_pbind emits_if emits_ret emits_log emits_modify_context
      emits_for_callbacks emits_getitem emits_predict_batch emits_loss_call
      emits_loss_backward emits_loss_item)+
  apply (simp add: batch_events_def)
  done

lemma last_index: "(int j = int n - 1) = (Suc j = n)"
  by auto

lemma emits_train_batches:
  "emits g (train_batches tr i bs)
     (concat (map (\<lambda>j. batch_events (callbacks tr) g
                (optimization_boundary (gradient_accumulation_steps tr)
                   (length (train_data_loader tr)) j))
        [i..<i + length bs]))"
proof (induction bs arbitrary: i)
  case Nil
  show ?case by (simp add: emits_ret)
next
  case (Cons b bs)
  let ?ev = "\<lambda>j. batch_events (callbacks tr) g
                (optimization_boundary (gradient_accumulation_steps tr)
                   (length (train_data_loader tr)) j)"
  show ?case
  proof (cases "gradient_accumulation_steps tr = 0")
    case True
    then show ?thesis by (simp add: perform_opt_step_def pbind_raise emits_raise)
  next
    case False
    then have eq: "train_batches tr i (b # bs) =
        pbind (train_batch tr b (optimization_boundary (gradient_accumulation_steps tr)
                   (length (train_data_loader tr)) i))
              (\<lambda>_. train_batches tr (Suc i) bs)"
      by (simp add: perform_opt_step_def pbind_ret optimization_boundary_def last_index)
    have "emits g (train_batches tr i (b # bs))
            (?ev i @ concat (map ?ev [Suc i..<Suc i + length bs]))"
      unfolding eq by (rule emits_pbind[OF emits_train_batch Cons.IH])
    moreover have "[i..<i + length (b # bs)] = i # [Suc i..<Suc i + length bs]"
      by (subst upt_rec) simp
    ultimately show ?thesis
      by (simp only: list.map concat.simps)
  qed
qed

lemma emits_train_epoch: "emits g (train_epoch tr) (epoch_events tr g)"
  unfolding train_epoch_def
  apply (rule emits_eq)
   apply (rule emits_pseq emits_log emits_modify_context emits_for_callbacks
      emits_model_train emits_train_batches)+
  apply (simp add: epoch_events_def)
  done

lemma deliver_Nil: "deliver [] evs = evs"
  by (induction evs) (auto simp: deliver_def)

lemma deliver_deliver: "deliver ys (deliver xs evs) = deliver (xs @ ys) evs"
  by (induction evs) (auto simp: deliver_def)

lemma names_deliver: "map fst (deliver cs evs) = map fst evs"
  by (induction evs) (auto simp: deliver_def)

lemma call_evaluator_Inr:
  "call_evaluator c name ev s = (Inr (ev', r), s') \<longleftrightarrow>
     respond ev (received ev @ [c]) = Inr r \<and> ev' = ev\<lparr>received := received ev @ [c]\<rparr> \<and>
     s' = s\<lparr>trace := trace s @ [call_event c name]\<rparr>"
  by (auto simp: call_evaluator_def pseq_Inr log_Inr ret_Inr raise_Inr split: sum.splits)

lemma call_evaluators_effect:
  "call_evaluators c evs s = (Inr (evs', rs), s') \<Longrightarrow>
     s' = s\<lparr>trace := trace s @ map (call_event c) (map fst evs)\<rparr> \<and>
     evs' = deliver [c] evs \<and> answered evs' rs"
proof (induction evs arbitrary: s evs' rs s')
  case Nil
  then show ?case by (simp add: ret_Inr deliver_def answered_def)
next
  case (Cons p evs)
  obtain n ev where p: "p = (n, ev)" by (cases p)
  from Cons.prems obtain ev1 r s1 rest' rs' where
    a: "call_evaluator c n ev s = (Inr (ev1, r), s1)" and
    b: "call_evaluators c evs s1 = (Inr (rest', rs'), s')" and
    c: "evs' = (n, ev1) # rest'" "rs = (n, r) # rs'"
    by (auto simp: p pbind_Inr ret_Inr split: prod.splits)
  from a have r: "respond ev (received ev @ [c]) = Inr r"
    and ev1: "ev1 = ev\<lparr>received := received ev @ [c]\<rparr>"
    and s1: "s1 = s\<lparr>trace := trace s @ [call_event c n]\<rparr>"
    by (simp_all add: call_evaluator_Inr)
  from Cons.IH[OF b]
  have s': "s' = s1\<lparr>trace := trace s1 @ map (call_event c) (map fst evs)\<rparr>"
    and rest': "rest' = deliver [c] evs" and ans: "answered rest' rs'"
    by blast+
  have "s' = s\<lparr>trace := trace s @ map (call_event c) (map fst (p # evs))\<rparr>"
    by (simp add: s' s1 p)
  moreover have "evs' = deliver [c] (p # evs)"
    by (simp add: c ev1 rest' p deliver_def)
  moreover have "answered evs' rs"
    using ans r by (simp add: c ev1 answered_def)
  ultimately show ?case by blast
qed

lemma call_evaluators_Inr:
  assumes "call_evaluators c evs s = (Inr (evs', rs), s')"
  shows "s' = s\<lparr>trace := trace s @ map (call_event c) (map fst evs)\<rparr>"
    and "evs' = deliver [c] evs"
    and "answered evs' rs"
  using call_evaluators_effect[OF assms] by blast+

lemma predict_batch_Inr:
  "predict_batch inp s = (Inr out, s') \<longleftrightarrow>
     forward (model (the_system s)) (map (tensor_to (device (the_system s))) (as_list inp)) = Inr out \<and>
     s' = s\<lparr>trace := trace s @ [PredictBatch (grad_enabled s)]\<rparr>"
  by (auto simp: predict_batch_def Let_def pseq_Inr log_Inr the_system_def)

lemma getitem_Inr: "getitem d k s = (Inr v, s') \<longleftrightarrow> map_of d k = Some v \<and> s' = s"
  by (auto simp: getitem_def ret_Inr raise_Inr split: option.splits)

lemma evaluate_batches_Inr:
  "evaluate_batches dl evs key s = (Inr evs', s') \<Longrightarrow>
     s' = s\<lparr>trace := trace s @
            concat (map (\<lambda>b. PredictBatch (grad_enabled s) # map EvaluatorStep (map fst evs)) dl)\<rparr> \<and>
     (\<exists>outs. map (model_output (the_system s) key) dl = map Inr outs \<and>
        evs' = deliver (map (\<lambda>(out, b). Step out b (last_activation (the_system s))) (zip outs dl)) evs)"
proof (induction dl arbitrary: evs s)
  case Nil
  then show ?case by (simp add: ret_Inr deliver_Nil)
next
  case (Cons b dl)
  from Cons.prems obtain inp out evs1 rs s1 s2 where
    a: "map_of b key = Some inp" and
    p: "predict_batch inp s = (Inr out, s1)" and
    c: "call_evaluators (Step out b (last_activation (the_system s1))) evs s1 = (Inr (evs1, rs), s2)" and
    r: "evaluate_batches dl evs1 key s2 = (Inr evs', s')"
    by (auto simp: pbind_Inr getitem_Inr split: prod.splits)
  from p have s1: "s1 = s\<lparr>trace := trace s @ [PredictBatch (grad_enabled s)]\<rparr>"
    and out: "model_output (the_system s) key b = Inr out"
    by (simp_all add: predict_batch_Inr model_output_def a)
  from call_evaluators_Inr(1,2)[OF c] have
    s2: "s2 = s1\<lparr>trace := trace s1 @ map EvaluatorStep (map fst evs)\<rparr>"
    and evs1: "evs1 = deliver [Step out b (last_activation (the_system s))] evs"
    by (simp_all add: s1 the_system_def comp_def)
  from Cons.IH[OF r] obtain outs where
    s': "s' = s2\<lparr>trace := trace s2 @
            concat (map (\<lambda>b. PredictBatch (grad_enabled s2) # map EvaluatorStep (map fst evs1)) dl)\<rparr>"
    and outs: "map (model_output (the_system s2) key) dl = map Inr outs"
    and evs': "evs' = deliver (map (\<lambda>(out, b). Step out b (last_activation (the_system s2))) (zip outs dl)) evs1"
    by blast
  have sys: "the_system s2 = the_system s" by (simp add: s2 s1 the_system_def)
  have "map (model_output (the_system s) key) (b # dl) = map Inr (out # outs)"
    using out outs by (simp add: sys)
  moreover have "evs' = deliver (map (\<lambda>(out, b). Step out b (last_activation (the_system s)))
                           (zip (out # outs) (b # dl))) evs"
    by (simp add: evs' evs1 sys deliver_deliver)
  moreover have "s' = s\<lparr>trace := trace s @
            concat (map (\<lambda>b. PredictBatch (grad_enabled s) # map EvaluatorStep (map fst evs)) (b # dl))\<rparr>"
    by (simp add: s' s2 s1 evs1 names_deliver)
  ultimately show ?case by blast
qed

lemma no_grad_Inr:
  "no_grad m s = (Inr r, s') \<longleftrightarrow>
     (\<exists>s1. m (s\<lparr>grad_enabled := False\<rparr>) = (Inr r, s1) \<and> s' = s1\<lparr>grad_enabled := grad_enabled s\<rparr>)"
  by (auto simp: no_grad_def split: prod.splits)

lemma model_train_Inr:
  "model_train flag s = (Inr u, s') \<longleftrightarrow>
     s' = s\<lparr>trace := trace s @ [ModelTrain flag],
            training_context := (training_context s)\<lparr>system :=
               (system (training_context s))\<lparr>model :=
                  (model (system (training_context s)))\<lparr>training := flag\<rparr>\<rparr>\<rparr>\<rparr>"
  by (auto simp: model_train_def pseq_Inr log_Inr modify_system_def modify_context_def)

lemma model_output_mode [simp]:
  "model_output (sys\<lparr>model := (model sys)\<lparr>training := flag\<rparr>\<rparr>) key = model_output sys key"
  by (rule ext) (simp add: model_output_def split: option.splits)

lemma evaluate_Inr:
  assumes "evaluate dl evs key s = (Inr (res, evs'), s')"
  shows "s' = s\<lparr>trace := trace s @ evaluate_events (map fst evs) dl,
                 training_context := inference_mode (training_context s)\<rparr>"
    and "\<exists>outs. map (model_output (the_system s) key) dl = map Inr outs \<and>
           evs' = deliver (Reset #
                    map (\<lambda>(out, b). Step out b (last_activation (the_system s))) (zip outs dl) @
                    [Calculate]) evs"
    and "\<exists>rs. res = as_dict rs \<and> answered evs' rs"
proof -
  from assms obtain s1 evs1 rs1 s2 evs2 s3 evs3 rs where
    a: "model_train False s = (Inr (), s1)" and
    b: "call_evaluators Reset evs s1 = (Inr (evs1, rs1), s2)" and
    c: "no_grad (evaluate_batches dl evs1 key) s2 = (Inr evs2, s3)" and
    d: "call_evaluators Calculate evs2 s3 = (Inr (evs3, rs), s')" and
    e: "res = as_dict rs" "evs' = evs3"
    by (auto simp: evaluate_def pseq_Inr pbind_Inr ret_Inr split: prod.splits)
  from a have s1: "s1 = s\<lparr>trace := trace s @ [ModelTrain False],
            training_context := inference_mode (training_context s)\<rparr>"
    by (simp add: model_train_Inr inference_mode_def)
  from call_evaluators_Inr(1,2)[OF b] have
    s2: "s2 = s1\<lparr>trace := trace s1 @ map EvaluatorReset (map fst evs)\<rparr>"
    and evs1: "evs1 = deliver [Reset] evs"
    by (simp_all add: comp_def)
  from c obtain s2' where
    c': "evaluate_batches dl evs1 key (s2\<lparr>grad_enabled := False\<rparr>) = (Inr evs2, s2')"
    and s3: "s3 = s2'\<lparr>grad_enabled := grad_enabled s2\<rparr>"
    by (auto simp: no_grad_Inr)
  have sys2: "the_system (s2\<lparr>grad_enabled := False\<rparr>) =
      (the_system s)\<lparr>model := (model (the_system s))\<lparr>training := False\<rparr>\<rparr>"
    by (simp add: s2 s1 the_system_def inference_mode_def)
  from evaluate_batches_Inr[OF c'] obtain outs where
    s2': "s2' = s2\<lparr>grad_enabled := False, trace := trace s2 @
            concat (map (\<lambda>b. PredictBatch False # map EvaluatorStep (map fst evs1)) dl)\<rparr>"
    and outs: "map (model_output (the_system s) key) dl = map Inr outs"
    and evs2: "evs2 = deliver (map (\<lambda>(out, b). Step out b (last_activation (the_system s)))
                          (zip outs dl)) evs1"
    unfolding sys2 by auto
  from call_evaluators_Inr[OF d] have
    s': "s' = s3\<lparr>trace := trace s3 @ map EvaluatorCalculate (map fst evs2)\<rparr>"
    and evs3: "evs3 = deliver [Calculate] evs2" and ans: "answered evs3 rs"
    by (simp_all add: comp_def)
  show "s' = s\<lparr>trace := trace s @ evaluate_events (map fst evs) dl,
                 training_context := inference_mode (training_context s)\<rparr>"
    by (simp add: s' s3 s2' s2 s1 evs2 evs1 names_deliver evaluate_events_def)
  show "\<exists>outs. map (model_output (the_system s) key) dl = map Inr outs \<and>
           evs' = deliver (Reset #
                    map (\<lambda>(out, b). Step out b (last_activation (the_system s))) (zip outs dl) @
                    [Calculate]) evs"
    using outs by (auto simp: e evs3 evs2 evs1 deliver_deliver)
  show "\<exists>rs. res = as_dict rs \<and> answered evs' rs"
    using ans e by blast
qed

lemma inference_mode_idem [simp]: "inference_mode (inference_mode c) = inference_mode c"
  by (simp add: inference_mode_def)

lemma inference_mode_fields [simp]:
  "results_history (inference_mode c) = results_history c"
  "stop_training (inference_mode c) = stop_training c"
  "current_epoch (inference_mode c) = current_epoch c"
  by (simp_all add: inference_mode_def)

lemma evaluate_datasets_Inr:
  "evaluate_datasets tr dls evs acc s = (Inr (res, evs'), s') \<Longrightarrow>
     trace s' = trace s @ concat (map (\<lambda>(n, dl). evaluate_events (map fst evs) dl) dls) \<and>
     grad_enabled s' = grad_enabled s \<and> map fst evs' = map fst evs \<and>
     (training_context s' = training_context s \<or>
      training_context s' = inference_mode (training_context s))"
proof (induction dls arbitrary: evs acc s)
  case Nil
  then show ?case by (simp add: ret_Inr)
next
  case (Cons p dls)
  obtain n dl where p: "p = (n, dl)" by (cases p)
  from Cons.prems obtain r evs1 s1 where
    a: "evaluate dl evs (batch_input_key tr) s = (Inr (r, evs1), s1)" and
    b: "evaluate_datasets tr dls evs1 (AList.update n r acc) s1 = (Inr (res, evs'), s')"
    by (auto simp: p pbind_Inr split: prod.splits)
  from evaluate_Inr(1)[OF a] have
    s1: "s1 = s\<lparr>trace := trace s @ evaluate_events (map fst evs) dl,
                 training_context := inference_mode (training_context s)\<rparr>" .
  from evaluate_Inr(2)[OF a] have n1: "map fst evs1 = map fst evs"
    by (auto simp: names_deliver)
  from Cons.IH[OF b] show ?case
    by (auto simp: s1 n1 p)
qed

lemma for_callbacks_Inr:
  "for_callbacks h cbs s = (Inr u, s') \<Longrightarrow>
     trace s' = trace s @ hooks h cbs \<and> grad_enabled s' = grad_enabled s"
  using emitsD[OF emits_for_callbacks] by blast

lemma modify_context_Inr:
  "modify_context f s = (Inr u, s') \<longleftrightarrow> s' = s\<lparr>training_context := f (training_context s)\<rparr>"
  by (auto simp: modify_context_def)

lemma train_evaluation_Inr:
  assumes "train_evaluation tr evs_opt s = (Inr evs_opt', s')"
  shows "trace s' = trace s @
           evaluation_events (callbacks tr) (evaluation_data_loaders tr) (names_of evs_opt)"
    and "grad_enabled s' = grad_enabled s"
    and "names_of evs_opt' = names_of evs_opt"
proof -
  have "trace s' = trace s @
           evaluation_events (callbacks tr) (evaluation_data_loaders tr) (names_of evs_opt)
        \<and> grad_enabled s' = grad_enabled s \<and> names_of evs_opt' = names_of evs_opt"
  proof (cases "evaluation_data_loaders tr")
    case None
    with assms show ?thesis
      by (simp add: train_evaluation_def ret_Inr evaluation_events_def)
  next
    case (Some dls)
    show ?thesis
    proof (cases evs_opt)
      case None
      with assms Some show ?thesis
        by (simp add: train_evaluation_def ret_Inr evaluation_events_def names_of_def)
    next
      case (Some evs)
      from assms \<open>evaluation_data_loaders tr = Some dls\<close> Some
      obtain s1 res evs1 s2 s3 s4 where
        a: "for_callbacks on_evaluation_start (callbacks tr) s = (Inr (), s1)" and
        b: "evaluate_datasets tr dls evs [] s1 = (Inr (res, evs1), s2)" and
        c: "s3 = s2\<lparr>trace := trace s2 @ [HistoryAppend]\<rparr>" and
        d: "s4 = s3\<lparr>training_context := (training_context s3)\<lparr>results_history :=
                 results_history (training_context s3) @ [res]\<rparr>\<rparr>" and
        e: "for_callbacks on_evaluation_end (callbacks tr) s4 = (Inr (), s')" and
        f: "evs_opt' = Some evs1"
        by (auto simp: train_evaluation_def pseq_Inr pbind_Inr ret_Inr log_Inr
            modify_context_Inr split: prod.splits)
      from for_callbacks_Inr[OF a] evaluate_datasets_Inr[OF b] for_callbacks_Inr[OF e]
      show ?thesis
        using \<open>evaluation_data_loaders tr = Some dls\<close> Some
        by (simp add: c d f evaluation_events_def names_of_def)
    qed
  qed
  then show "trace s' = trace s @
           evaluation_events (callbacks tr) (evaluation_data_loaders tr) (names_of evs_opt)"
    and "grad_enabled s' = grad_enabled s"
    and "names_of evs_opt' = names_of evs_opt"
    by blast+
qed



subsection \<open>More fuel\<close>



subsection \<open>The hooks among the calls\<close>

lemma filter_hooks [simp]: "filter is_hook (hooks h cbs) = hooks h cbs"
  by (induction cbs) (simp_all add: hooks_def)












subsection \<open>Counting the optimizer's steps\<close>

text \<open>
  An epoch of \<open>n \<ge> 1\<close> batches with a step count \<open>k \<ge> 1\<close> steps the optimizer at
  every multiple of \<open>k\<close> below \<open>n - 1\<close> and at the last batch: the ceiling of
  \<open>(n - 1) / k\<close>, plus one.
\<close>

lemma ceil_step:
  fixes k m :: nat
  assumes "0 < k"
  shows "(m + k) div k = (m + k - 1) div k + (if m mod k = 0 then 1 else 0)"
proof (cases "m mod k = 0")
  case True
  define q where "q = m div k"
  from True have q: "m = q * k"
    using div_mult_mod_eq[of m k] by (simp add: q_def)
  have e: "m + k - 1 = (k - 1) + q * k" using assms by (simp add: q)
  have "(m + k - 1) div k = q + (k - 1) div k"
    unfolding e using assms by (intro div_mult_self1) simp
  then have "(m + k - 1) div k = q" using assms by simp
  moreover have "(m + k) div k = q + 1" using assms by (simp add: q)
  ultimately show ?thesis using True by simp
next
  case False
  define q where "q = m div k"
  define r where "r = m mod k"
  have m: "m = r + q * k" by (simp add: q_def r_def)
  have r: "0 < r" "r < k" using False assms by (simp_all add: r_def)
  have e: "m + k - 1 = (r - 1) + (q + 1) * k" using r by (simp add: m)
  have "(m + k - 1) div k = (q + 1) + (r - 1) div k"
    unfolding e using assms by (intro div_mult_self1) simp
  then have "(m + k - 1) div k = q + 1" using r by simp
  moreover have "(m + k) div k = q + 1" using assms by (simp add: q_def div_add_self2)
  ultimately show ?thesis using False by simp
qed

lemma count_multiples:
  fixes k :: nat
  assumes "0 < k"
  shows "length (filter (\<lambda>i. i mod k = 0) [0..<m]) = (m + k - 1) div k"
proof (induction m)
  case 0
  then show ?case using assms by simp
next
  case (Suc m)
  have "length (filter (\<lambda>i. i mod k = 0) [0..<Suc m])
      = (m + k - 1) div k + (if m mod k = 0 then 1 else 0)"
    by (simp add: Suc.IH)
  also have "\<dots> = (m + k) div k" by (rule ceil_step[OF assms, symmetric])
  finally show ?case by simp
qed

lemma count_boundaries:
  fixes k :: int
  assumes "1 \<le> k" and "1 \<le> n"
  shows "length (filter (optimization_boundary k n) [0..<n]) = (n - 1 + nat k - 1) div nat k + 1"
proof -
  obtain m where n: "n = Suc m" using assms(2) by (cases n) simp_all
  have k: "0 < nat k" using assms(1) by simp
  have md: "(int i mod k = 0) = (i mod nat k = 0)" for i
  proof -
    have "int i mod k = int (i mod nat k)" using assms(1) by (simp add: zmod_int)
    then show ?thesis by simp
  qed
  have "filter (optimization_boundary k n) [0..<m] = filter (\<lambda>i. i mod nat k = 0) [0..<m]"
    by (rule filter_cong) (auto simp: optimization_boundary_def n md)
  then have "length (filter (optimization_boundary k n) [0..<n])
      = length (filter (\<lambda>i. i mod nat k = 0) [0..<m]) + 1"
    by (simp add: n optimization_boundary_def)
  then show ?thesis by (simp add: count_multiples[OF k] n)
qed

lemma count_steps_batch:
  "length (filter (\<lambda>e. e = OptimizerStep) (batch_events cbs g p)) = (if p then 1 else 0)"
proof -
  have "filter (\<lambda>e. e = OptimizerStep) (hooks h cbs) = []" for h
    by (induction cbs) (simp_all add: hooks_def)
  then show ?thesis by (simp add: batch_events_def)
qed

lemma count_steps_batches:
  "length (filter (\<lambda>e. e = OptimizerStep) (concat (map (\<lambda>i. batch_events cbs g (p i)) is)))
     = length (filter p is)"
  by (induction "is") (simp_all add: count_steps_batch)

lemma count_steps_epoch:
  "length (filter (\<lambda>e. e = OptimizerStep) (epoch_events tr g))
     = length (filter (optimization_boundary (gradient_accumulation_steps tr)
                         (length (train_data_loader tr)))
                      [0..<length (train_data_loader tr)])"
proof -
  have "filter (\<lambda>e. e = OptimizerStep) (hooks h cbs) = []" for h and cbs :: "'a callback list"
    by (induction cbs) (simp_all add: hooks_def)
  then show ?thesis
    by (simp add: epoch_events_def count_steps_batches)
qed

lemma steps_per_epoch:
  assumes "train_epoch tr s = (Inr u, s')"
    and "1 \<le> gradient_accumulation_steps tr" and "1 \<le> length (train_data_loader tr)"
  shows "\<exists>es. trace s' = trace s @ es \<and>
           length (filter (\<lambda>e. e = OptimizerStep) es)
             = (length (train_data_loader tr) - 1 + nat (gradient_accumulation_steps tr) - 1)
                 div nat (gradient_accumulation_steps tr) + 1"
  using emitsD[OF emits_train_epoch refl assms(1)]
    count_boundaries[OF assms(2,3)] count_steps_epoch[of tr "grad_enabled s"]
  by simp

subsection \<open>Loading a state dict\<close>

lemma map_of_prefixed:
  "map_of (map (\<lambda>(k, v). (p @ k, v)) st) (p @ k) = map_of st k"
  by (induction st) auto

lemma load_state_dict_model:
  "snd (load_state_dict m (file_state m st) strict) = loaded m st"
  by (simp add: load_state_dict_def loaded_def Let_def)

lemma load_state_dict_strict:
  "load_state_dict m st' True = (Inr keys, m') \<Longrightarrow> keys = ([], [])"
  by (auto simp: load_state_dict_def Let_def split: if_splits)

lemma load_state_dict_lax:
  "\<exists>keys. fst (load_state_dict m st' False) = Inr keys"
  by (simp add: load_state_dict_def Let_def)

lemma load_state_dict_agree:
  assumes "wrap m \<le> 1" and "set (map fst st) = set (map fst (params m))"
  shows "fst (load_state_dict m (file_state m st) strict) = Inr ([], [])"
proof -
  have w: "wrap m = 0 \<or> wrap m = 1" using assms(1) by auto
  let ?own = "map (\<lambda>(k, v). state_key m k) (params m)"
  have own: "set ?own = (\<lambda>k. state_key m k) ` set (map fst (params m))"
    by (auto simp: image_iff) force
  have fs: "set (map fst (file_state m st)) = (\<lambda>k. state_key m k) ` set (map fst st)"
    using w by (auto simp: file_state_def state_key_def image_iff) force+
  have "set ?own = set (map fst (file_state m st))"
    by (simp only: own fs assms(2))
  then have "filter (\<lambda>k. k \<notin> set (map fst (file_state m st))) ?own = []"
    and "filter (\<lambda>k. k \<notin> set ?own) (map fst (file_state m st)) = []"
    by (simp_all add: filter_empty_conv)
  then show ?thesis
    by (simp add: load_state_dict_def Let_def)
qed

lemma load_model_state_StateFile:
  "load_model_state (StateFile st) strict s =
     (case load_state_dict (model (the_system s)) (file_state (model (the_system s)) st) strict of
        (Inl e, m') \<Rightarrow> (Inl e, snd (modify_system (\<lambda>sys. sys\<lparr>model := m'\<rparr>) s))
      | (Inr invalid_keys, m') \<Rightarrow>
          (Inr invalid_keys,
           snd (modify_system (\<lambda>sys. sys\<lparr>model := model_to (device sys) m'\<rparr>) s)))"
  by (simp add: load_model_state_def torch_load_def pbind_ret Let_def file_state_def)

subsection \<open>Dicts built entry by entry\<close>

lemma set_update_subset: "set (AList.update k v d) \<subseteq> insert (k, v) (set d)"
  by (induction d) auto

lemma as_dict_keys: "fst ` set (as_dict kvs) = fst ` set kvs"
proof -
  have "fst ` set (fold (\<lambda>(k, v) d. AList.update k v d) kvs d) = fst ` set kvs \<union> fst ` set d" for d
  proof (induction kvs arbitrary: d)
    case Nil
    show ?case by simp
  next
    case (Cons p kvs)
    obtain k v where p: "p = (k, v)" by (cases p)
    have "fst ` set (fold (\<lambda>(k, v) d. AList.update k v d) (p # kvs) d)
            = fst ` set kvs \<union> fst ` set (AList.update k v d)"
      by (simp add: p Cons.IH)
    also have "\<dots> = fst ` set (p # kvs) \<union> fst ` set d"
      unfolding dom_update by (auto simp: p)
    finally show ?case .
  qed
  from this[of "[]"] show ?thesis by (simp add: as_dict_def)
qed

lemma as_dict_subset: "set (as_dict kvs) \<subseteq> set kvs"
proof -
  have "set (fold (\<lambda>(k, v) d. AList.update k v d) kvs d) \<subseteq> set kvs \<union> set d" for d
  proof (induction kvs arbitrary: d)
    case Nil
    show ?case by simp
  next
    case (Cons p kvs)
    obtain k v where p: "p = (k, v)" by (cases p)
    from Cons.IH[of "AList.update k v d"] set_update_subset[of k v d]
    show ?case by (auto simp: p)
  qed
  from this[of "[]"] show ?thesis by (simp add: as_dict_def)
qed

lemma answered_names: "answered evs rs \<Longrightarrow> map fst rs = map fst evs"
  unfolding answered_def by (induction evs rs rule: list_all2_induct) auto

lemma answered_member:
  "answered evs rs \<Longrightarrow> (n, r) \<in> set rs \<Longrightarrow>
     \<exists>ev. (n, ev) \<in> set evs \<and> respond ev (received ev) = Inr r"
  unfolding answered_def by (induction evs rs rule: list_all2_induct) auto

subsection \<open>What the engine leaves alone\<close>

lemma staysD:
  "stays P m \<Longrightarrow> P (control (training_context s)) \<Longrightarrow> m s = (r, s') \<Longrightarrow>
     P (control (training_context s'))"
  unfolding stays_def by blast

lemma stays_ret: "stays P (ret a)"
  by (simp add: stays_def ret_def)

lemma stays_raise: "stays P (raise e)"
  by (simp add: stays_def raise_def)

lemma stays_log: "stays P (log e)"
  by (auto simp: stays_def log_def)

lemma stays_pbind:
  assumes "stays P m" and "\<And>a. stays P (f a)"
  shows "stays P (pbind m f)"
  unfolding stays_def
proof (intro allI impI)
  fix s r s'
  assume p: "P (control (training_context s))" and run: "pbind m f s = (r, s')"
  obtain r1 s1 where m: "m s = (r1, s1)" by (cases "m s")
  from staysD[OF assms(1) p m] have p1: "P (control (training_context s1))" .
  show "P (control (training_context s'))"
  proof (cases r1)
    case (Inl e)
    with run m have "s' = s1" by (simp add: pbind_def)
    with p1 show ?thesis by simp
  next
    case (Inr a)
    with run m have "f a s1 = (r, s')" by (simp add: pbind_def)
    from staysD[OF assms(2) p1 this] show ?thesis .
  qed
qed

lemma stays_pseq: "stays P m \<Longrightarrow> stays P n \<Longrightarrow> stays P (pseq m n)"
  by (simp add: pseq_def stays_pbind)

lemma stays_if: "stays P m \<Longrightarrow> stays P n \<Longrightarrow> stays P (if p then m else n)"
  by simp

lemma stays_modify_context:
  "(\<And>c. control (f c) = control c) \<Longrightarrow> stays P (modify_context f)"
  by (auto simp: stays_def modify_context_def)

lemma stays_modify_system: "stays P (modify_system f)"
  unfolding modify_system_def by (rule stays_modify_context) (simp add: control_def)

lemma stays_getitem: "stays P (getitem d k)"
  by (simp add: getitem_def stays_ret stays_raise split: option.splits)

lemma stays_frame:
  "(\<And>s r s'. m s = (r, s') \<Longrightarrow> training_context s' = training_context s) \<Longrightarrow> stays P m"
  unfolding stays_def by metis

lemma stays_predict_batch: "stays P (predict_batch inp)"
  by (rule stays_frame) (auto simp: predict_batch_def Let_def pseq_def pbind_def log_def)

lemma stays_call_hook: "hook_keeps P h cb \<Longrightarrow> stays P (call_hook h cb)"
  unfolding stays_def hook_keeps_def
  by (auto simp: call_hook_def pseq_def pbind_def log_def split: prod.splits)

lemma stays_for_callbacks:
  "\<forall>cb\<in>set cbs. hook_keeps P h cb \<Longrightarrow> stays P (for_callbacks h cbs)"
  by (induction cbs) (simp_all add: stays_ret stays_pseq stays_call_hook)

lemma stays_loss_call: "loss_keeps P tr \<Longrightarrow> stays P (loss_call tr b)"
  unfolding stays_def loss_keeps_def
  by (auto simp: loss_call_def Let_def pseq_def pbind_def log_def split: prod.splits)

lemma stays_loss_backward: "stays P loss_backward"
  by (rule stays_frame) (auto simp: loss_backward_def raise_def log_def split: option.splits)

lemma stays_loss_item: "stays P loss_item"
  by (rule stays_frame)
     (auto simp: loss_item_def raise_def log_def pseq_def pbind_def ret_def split: option.splits)

lemma stays_model_train: "stays P (model_train flag)"
  unfolding model_train_def by (intro stays_pseq stays_log stays_modify_system)

lemma stays_perform_opt_step: "stays P (perform_opt_step tr i)"
  by (simp add: perform_opt_step_def stays_ret stays_raise)

lemma stays_train_batch:
  assumes "\<And>h. h \<noteq> on_epoch_end \<Longrightarrow> \<forall>cb\<in>set (callbacks tr). hook_keeps P h cb"
    and "loss_keeps P tr"
  shows "stays P (train_batch tr b p)"
  unfolding train_batch_def
  by (intro stays_pseq stays_pbind stays_if stays_ret stays_log stays_getitem
        stays_predict_batch stays_loss_call stays_loss_backward stays_loss_item
        stays_for_callbacks stays_modify_context assms)
     (simp_all add: control_def)

lemma stays_train_batches:
  assumes "\<And>h. h \<noteq> on_epoch_end \<Longrightarrow> \<forall>cb\<in>set (callbacks tr). hook_keeps P h cb"
    and "loss_keeps P tr"
  shows "stays P (train_batches tr i bs)"
  by (induction bs arbitrary: i)
     (simp_all add: stays_ret stays_pbind stays_perform_opt_step stays_train_batch assms)

lemma call_evaluators_frame:
  "call_evaluators c evs s = (r, s') \<Longrightarrow> training_context s' = training_context s"
proof (induction evs arbitrary: s r s')
  case Nil
  then show ?case by (simp add: ret_def)
next
  case (Cons p evs)
  obtain n ev where p: "p = (n, ev)" by (cases p)
  obtain r1 s1 where a: "call_evaluator c n ev s = (r1, s1)"
    by (cases "call_evaluator c n ev s")
  then have s1: "training_context s1 = training_context s"
    by (auto simp: call_evaluator_def pseq_def pbind_def log_def raise_def ret_def
        split: sum.splits)
  show ?case
  proof (cases r1)
    case (Inl e)
    with Cons.prems a s1 show ?thesis by (simp add: p pbind_def)
  next
    case (Inr x)
    obtain ev' res where x: "x = (ev', res)" by (cases x)
    obtain r2 s2 where b: "call_evaluators c evs s1 = (r2, s2)"
      by (cases "call_evaluators c evs s1")
    from Cons.IH[OF b] s1 have "training_context s2 = training_context s" by simp
    with Cons.prems a b Inr x show ?thesis
      by (cases r2) (auto simp: p pbind_def ret_def split: prod.splits)
  qed
qed

lemma stays_call_evaluators: "stays P (call_evaluators c evs)"
  by (rule stays_frame) (rule call_evaluators_frame)

lemma stays_no_grad:
  assumes "stays P m"
  shows "stays P (no_grad m)"
  unfolding stays_def
proof (intro allI impI)
  fix s r s'
  assume p: "P (control (training_context s))" and run: "no_grad m s = (r, s')"
  obtain r1 s1 where m: "m (s\<lparr>grad_enabled := False\<rparr>) = (r1, s1)"
    by (cases "m (s\<lparr>grad_enabled := False\<rparr>)")
  from p have "P (control (training_context (s\<lparr>grad_enabled := False\<rparr>)))" by simp
  from staysD[OF assms this m] have "P (control (training_context s1))" .
  moreover from run m have "s' = s1\<lparr>grad_enabled := grad_enabled s\<rparr>"
    by (simp add: no_grad_def)
  ultimately show "P (control (training_context s'))" by simp
qed

lemma stays_evaluate_batches: "stays P (evaluate_batches dl evs key)"
proof (induction dl arbitrary: evs)
  case Nil
  show ?case by (simp add: stays_ret)
next
  case (Cons b dl)
  have "\<And>out. stays P (\<lambda>s. call_evaluators (Step out b (last_activation (the_system s))) evs s)"
    unfolding stays_def using staysD[OF stays_call_evaluators] by blast
  then show ?case
    by (auto intro!: stays_pbind stays_getitem stays_predict_batch Cons.IH)
qed

lemma stays_evaluate: "stays P (evaluate dl evs key)"
  unfolding evaluate_def
  by (auto intro!: stays_pseq stays_pbind stays_model_train stays_call_evaluators
        stays_no_grad stays_evaluate_batches stays_ret)

lemma stays_evaluate_datasets: "stays P (evaluate_datasets tr dls evs acc)"
proof (induction dls arbitrary: evs acc)
  case Nil
  show ?case by (simp add: stays_ret)
next
  case (Cons p dls)
  obtain n dl where p: "p = (n, dl)" by (cases p)
  show ?case
    by (auto simp: p intro!: stays_pbind stays_evaluate Cons.IH)
qed

lemma stays_train_epoch:
  assumes "\<And>h. \<forall>cb\<in>set (callbacks tr). hook_keeps P h cb"
    and "loss_keeps P tr"
    and "\<And>st e h. P (st, e, h) \<Longrightarrow> P (st, e + 1, h)"
  shows "stays P (train_epoch tr)"
proof -
  have "stays P (modify_context (\<lambda>c. c\<lparr>current_epoch := current_epoch c + 1\<rparr>))"
    using assms(3) by (auto simp: stays_def modify_context_def control_def)
  then show ?thesis
    unfolding train_epoch_def
    by (intro stays_pseq stays_model_train stays_for_callbacks stays_log
          stays_train_batches assms)
qed

lemma stays_train_evaluation:
  assumes "\<And>h. \<forall>cb\<in>set (callbacks tr). hook_keeps P h cb"
    and "\<And>st e h x. P (st, e, h) \<Longrightarrow> P (st, e, h @ [x])"
  shows "stays P (train_evaluation tr evs_opt)"
proof -
  have "\<And>x. stays P (modify_context (\<lambda>c. c\<lparr>results_history := results_history c @ [x]\<rparr>))"
    using assms(2) by (auto simp: stays_def modify_context_def control_def)
  then show ?thesis
    unfolding train_evaluation_def
    by (auto split: option.splits
          intro!: stays_ret stays_pseq stays_pbind stays_for_callbacks stays_log
            stays_evaluate_datasets assms)
qed

lemma keeps_halt_steps:
  assumes "keeps_halt tr"
  shows "stays fst (train_batch tr b p)" and "stays fst (train_epoch tr)"
    and "stays fst (train_evaluation tr evs)"
proof -
  from assms have h: "\<And>h. \<forall>cb\<in>set (callbacks tr). hook_keeps fst h cb" and l: "loss_keeps fst tr"
    by (simp_all add: keeps_halt_def)
  show "stays fst (train_batch tr b p)" by (rule stays_train_batch) (simp_all add: h l)
  show "stays fst (train_epoch tr)" by (rule stays_train_epoch) (simp_all add: h l)
  show "stays fst (train_evaluation tr evs)" by (rule stays_train_evaluation) (simp_all add: h)
qed

subsection \<open>The results history\<close>

lemma history_stays:
  "stays (\<lambda>v. snd (snd v) = results_history (training_context s)) m \<Longrightarrow> m s = (r, s') \<Longrightarrow>
     results_history (training_context s') = results_history (training_context s)"
  using staysD[of "\<lambda>v. snd (snd v) = results_history (training_context s)" m s r s']
  by (simp add: control_def)

lemma epoch_history:
  assumes "keeps_history tr" and "train_epoch tr s = (r, s')"
  shows "results_history (training_context s') = results_history (training_context s)"
proof -
  have "stays (\<lambda>v. snd (snd v) = results_history (training_context s)) (train_epoch tr)"
    using assms(1) by (intro stays_train_epoch) (simp_all add: keeps_history_def)
  from history_stays[where m = "train_epoch tr", OF this assms(2)] show ?thesis .
qed

lemma hooks_history:
  assumes "keeps_history tr" and "for_callbacks h (callbacks tr) s = (r, s')"
  shows "results_history (training_context s') = results_history (training_context s)"
proof -
  have "stays (\<lambda>v. snd (snd v) = results_history (training_context s))
          (for_callbacks h (callbacks tr))"
    using assms(1) by (intro stays_for_callbacks) (simp add: keeps_history_def)
  from history_stays[where m = "for_callbacks h (callbacks tr)", OF this assms(2)]
  show ?thesis .
qed

lemma evaluation_history:
  assumes "keeps_history tr" and "train_evaluation tr evs_opt s = (Inr evs_opt', s')"
  shows "\<exists>ys. results_history (training_context s') = results_history (training_context s) @ ys \<and>
           length ys = (if evaluation_data_loaders tr \<noteq> None \<and> evs_opt \<noteq> None then 1 else 0)"
proof (cases "evaluation_data_loaders tr \<noteq> None \<and> evs_opt \<noteq> None")
  case False
  with assms(2) have "s' = s"
    by (auto simp: train_evaluation_def ret_Inr split: option.splits)
  with False show ?thesis by simp
next
  case True
  then obtain dls evs where c: "evaluation_data_loaders tr = Some dls" "evs_opt = Some evs"
    by auto
  from assms(2) c obtain s1 res evs1 s2 s3 s4 where
    a: "for_callbacks on_evaluation_start (callbacks tr) s = (Inr (), s1)" and
    b: "evaluate_datasets tr dls evs [] s1 = (Inr (res, evs1), s2)" and
    d: "s4 = s2\<lparr>trace := trace s2 @ [HistoryAppend],
               training_context := (training_context s2)\<lparr>results_history :=
                 results_history (training_context s2) @ [res]\<rparr>\<rparr>" and
    e: "for_callbacks on_evaluation_end (callbacks tr) s4 = (Inr (), s')"
    by (auto simp: train_evaluation_def pseq_Inr pbind_Inr ret_Inr log_Inr
        modify_context_Inr split: prod.splits)
  from hooks_history[OF assms(1) a]
  have 1: "results_history (training_context s1) = results_history (training_context s)" .
  from history_stays[where m = "evaluate_datasets tr dls evs []", OF stays_evaluate_datasets b]
  have 2: "results_history (training_context s2) = results_history (training_context s1)" .
  from hooks_history[OF assms(1) e]
  have 3: "results_history (training_context s') = results_history (training_context s4)" .
  have "results_history (training_context s') = results_history (training_context s) @ [res]"
    by (simp add: 3 d 2 1)
  with True show ?thesis by simp
qed

lemma names_of_None: "names_of a = names_of b \<Longrightarrow> (a \<noteq> None) = (b \<noteq> None)"
  by (cases a; cases b) (simp_all add: names_of_def)

lemma training_loop_history:
  "training_loop fuel tr evs s = Some (Inr evs', s') \<Longrightarrow>
     names_of evs = names_of (evaluators tr) \<Longrightarrow> keeps_history tr \<Longrightarrow>
     \<exists>m ys. trace s' = trace s @ concat (replicate m (iteration_events tr (grad_enabled s))) @
              [ReadStop True] \<and>
         grad_enabled s' = grad_enabled s \<and>
         results_history (training_context s') = results_history (training_context s) @ ys \<and>
         length ys = (if evaluation_configured tr then m else 0)"
proof (induction fuel arbitrary: evs s)
  case 0
  then show ?case by simp
next
  case (Suc fuel)
  show ?case
  proof (cases "stop_training (training_context s)")
    case True
    with Suc.prems(1) have "s' = s\<lparr>trace := trace s @ [ReadStop True]\<rparr>"
      by (simp add: Let_def)
    then have "trace s' = trace s @ concat (replicate 0 (iteration_events tr (grad_enabled s))) @
              [ReadStop True] \<and>
         grad_enabled s' = grad_enabled s \<and>
         results_history (training_context s') = results_history (training_context s) @ [] \<and>
         length ([] :: (string \<times> (string \<times> result) list) list list)
           = (if evaluation_configured tr then 0 else 0)"
      by simp
    then show ?thesis by blast
  next
    case False
    let ?s0 = "s\<lparr>trace := trace s @ [ReadStop False]\<rparr>"
    from Suc.prems(1) False obtain evs1 s2 where
      it: "pbind (train_epoch tr) (\<lambda>_. train_evaluation tr evs) ?s0 = (Inr evs1, s2)" and
      rest: "training_loop fuel tr evs1 s2 = Some (Inr evs', s')"
      by (auto simp: Let_def split: prod.splits sum.splits)
    from it obtain s1 where
      ep: "train_epoch tr ?s0 = (Inr (), s1)" and
      ev: "train_evaluation tr evs s1 = (Inr evs1, s2)"
      by (auto simp: pbind_Inr)
    from emitsD[OF emits_train_epoch _ ep, of "grad_enabled s"]
    have t1: "trace s1 = trace s @ ReadStop False # epoch_events tr (grad_enabled s)"
      and g1: "grad_enabled s1 = grad_enabled s"
      by simp_all
    from train_evaluation_Inr[OF ev] Suc.prems(2)
    have t2: "trace s2 = trace s @ iteration_events tr (grad_enabled s)"
      and g2: "grad_enabled s2 = grad_enabled s"
      and n2: "names_of evs1 = names_of (evaluators tr)"
      by (simp_all add: t1 g1 iteration_events_def)
    from epoch_history[OF Suc.prems(3) ep]
    have h1: "results_history (training_context s1) = results_history (training_context s)"
      by simp
    from evaluation_history[OF Suc.prems(3) ev] names_of_None[OF Suc.prems(2)]
    obtain y1 where
      h2: "results_history (training_context s2) = results_history (training_context s) @ y1"
      and l2: "length y1 = (if evaluation_configured tr then 1 else 0)"
      by (auto simp: h1 evaluation_configured_def)
    from Suc.IH[OF rest n2 Suc.prems(3)] obtain m ys where
      "trace s' = trace s2 @ concat (replicate m (iteration_events tr (grad_enabled s2))) @
              [ReadStop True]"
      "grad_enabled s' = grad_enabled s2"
      "results_history (training_context s') = results_history (training_context s2) @ ys"
      "length ys = (if evaluation_configured tr then m else 0)"
      by blast
    then have "trace s' = trace s @ concat (replicate (Suc m) (iteration_events tr (grad_enabled s))) @
              [ReadStop True] \<and>
         grad_enabled s' = grad_enabled s \<and>
         results_history (training_context s') = results_history (training_context s) @ (y1 @ ys) \<and>
         length (y1 @ ys) = (if evaluation_configured tr then Suc m else 0)"
      by (simp add: t2 g2 h2 l2)
    then show ?thesis by blast
  qed
qed

subsection \<open>The default stopping criterion\<close>

lemma pseq_ret: "pseq (ret ()) m = m"
  by (simp add: pseq_def pbind_ret)

lemma pseq_assoc: "pseq (pseq a b) c = pseq a (pseq b c)"
  by (rule ext) (auto simp: pseq_def pbind_def split: prod.splits sum.splits)

lemma for_callbacks_append:
  "for_callbacks h (xs @ ys) = pseq (for_callbacks h xs) (for_callbacks h ys)"
  by (induction xs) (simp_all add: pseq_ret pseq_assoc)

lemma quiet_keeps: "quiet cb \<Longrightarrow> hook_keeps P h cb"
  unfolding quiet_def hook_keeps_def by metis

lemma quiet_loss_keeps: "quiet_loss (calculate_loss tr) \<Longrightarrow> loss_keeps P tr"
  unfolding quiet_loss_def loss_keeps_def by metis

lemma default_keeps_elsewhere:
  "h \<noteq> on_epoch_end \<Longrightarrow> hook_keeps P h (NumberOfEpochsStoppingCriterionCallback n)"
  by (simp add: hook_keeps_def NumberOfEpochsStoppingCriterionCallback_def)

lemma default_keeps:
  "hook_keeps fst h (NumberOfEpochsStoppingCriterionCallback n)"
  "hook_keeps (\<lambda>v. snd (snd v) = H) h (NumberOfEpochsStoppingCriterionCallback n)"
  by (auto simp: hook_keeps_def NumberOfEpochsStoppingCriterionCallback_def control_def
        split: if_splits)

lemma default_sets_flag:
  assumes "for_callbacks on_epoch_end [NumberOfEpochsStoppingCriterionCallback 1] s = (Inr u, s')"
    and "0 \<le> current_epoch (training_context s)"
  shows "stop_training (training_context s')"
  using assms
  by (auto simp: call_hook_def pseq_def pbind_def log_def ret_def
        NumberOfEpochsStoppingCriterionCallback_def split: if_splits)

lemma epoch_stays:
  "stays (\<lambda>v. fst (snd v) = current_epoch (training_context s)) m \<Longrightarrow> m s = (r, s') \<Longrightarrow>
     current_epoch (training_context s') = current_epoch (training_context s)"
  using staysD[of "\<lambda>v. fst (snd v) = current_epoch (training_context s)" m s r s']
  by (simp add: control_def)

lemma epoch_sets_flag:
  assumes cb: "callbacks tr = l @ [NumberOfEpochsStoppingCriterionCallback 1]"
    and l: "\<forall>cb\<in>set l. quiet cb"
    and lw: "quiet_loss (calculate_loss tr)"
    and run: "train_epoch tr s = (Inr u, s')"
    and e: "- 1 \<le> current_epoch (training_context s)"
  shows "stop_training (training_context s')"
proof -
  let ?P = "\<lambda>e (v :: bool \<times> int \<times> (string \<times> (string \<times> result) list) list list). fst (snd v) = e"
  have k: "\<forall>cb\<in>set (callbacks tr). hook_keeps (?P e) h cb" if "h \<noteq> on_epoch_end" for h e
    using that l by (auto simp: cb quiet_keeps default_keeps_elsewhere)
  have lk: "loss_keeps (?P e) tr" for e
    by (rule quiet_loss_keeps[OF lw])
  from run obtain s1 s2 s3 s4 s5 where
    1: "s1 = s\<lparr>training_context := (training_context s)\<lparr>current_epoch :=
               current_epoch (training_context s) + 1\<rparr>\<rparr>" and
    2: "model_train True s1 = (Inr (), s2)" and
    3: "for_callbacks on_epoch_start (callbacks tr) s2 = (Inr (), s3)" and
    4: "s4 = s3\<lparr>trace := trace s3 @ [ZeroGrad]\<rparr>" and
    5: "train_batches tr 0 (train_data_loader tr) s4 = (Inr (), s5)" and
    6: "for_callbacks on_epoch_end (callbacks tr) s5 = (Inr (), s')"
    by (auto simp: train_epoch_def pseq_Inr modify_context_Inr log_Inr)
  have e2: "current_epoch (training_context s2) = current_epoch (training_context s1)"
    by (rule epoch_stays[where m = "model_train True", OF stays_model_train 2])
  have e3: "current_epoch (training_context s3) = current_epoch (training_context s2)"
    by (rule epoch_stays[where m = "for_callbacks on_epoch_start (callbacks tr)", OF _ 3])
       (simp add: stays_for_callbacks k)
  have e5: "current_epoch (training_context s5) = current_epoch (training_context s4)"
    by (rule epoch_stays[where m = "train_batches tr 0 (train_data_loader tr)", OF _ 5])
       (simp add: stays_train_batches k lk)
  from 6 obtain s6 where
    7: "for_callbacks on_epoch_end l s5 = (Inr (), s6)" and
    8: "for_callbacks on_epoch_end [NumberOfEpochsStoppingCriterionCallback 1] s6 = (Inr (), s')"
    by (auto simp: cb for_callbacks_append pseq_Inr)
  have e6: "current_epoch (training_context s6) = current_epoch (training_context s5)"
    by (rule epoch_stays[where m = "for_callbacks on_epoch_end l", OF _ 7])
       (simp add: stays_for_callbacks l quiet_keeps)
  have "0 \<le> current_epoch (training_context s6)"
    using e by (simp add: e6 e5 4 e3 e2 1)
  from default_sets_flag[OF 8 this] show ?thesis .
qed

lemma default_trainer_keeps:
  assumes cb: "callbacks tr = l @ [NumberOfEpochsStoppingCriterionCallback 1]"
    and l: "\<forall>cb\<in>set l. quiet cb"
    and lw: "quiet_loss (calculate_loss tr)"
  shows "keeps_halt tr" and "keeps_history tr"
    and "h \<noteq> on_epoch_end \<Longrightarrow> \<forall>cb\<in>set (callbacks tr). hook_keeps P h cb"
  using l by (auto simp: keeps_halt_def keeps_history_def cb quiet_keeps default_keeps
        default_keeps_elsewhere quiet_loss_keeps[OF lw])

lemma single_epoch_loop:
  assumes cb: "callbacks tr = l @ [NumberOfEpochsStoppingCriterionCallback 1]"
    and l: "\<forall>cb\<in>set l. quiet cb"
    and lw: "quiet_loss (calculate_loss tr)"
    and e: "- 1 \<le> current_epoch (training_context s)"
    and ns: "\<not> stop_training (training_context s)"
  shows "training_loop (Suc (Suc fuel)) tr (evaluators tr) s \<noteq> None"
    and "training_loop (Suc (Suc fuel)) tr (evaluators tr) s = Some (Inr evs', s') \<Longrightarrow>
           trace s' = trace s @ iteration_events tr (grad_enabled s) @ [ReadStop True]
         \<and> grad_enabled s' = grad_enabled s
         \<and> (\<exists>ys. results_history (training_context s')
                    = results_history (training_context s) @ ys
                \<and> length ys = (if evaluation_configured tr then 1 else 0))"
proof -
  let ?s0 = "s\<lparr>trace := trace s @ [ReadStop False]\<rparr>"
  note kp = default_trainer_keeps[OF cb l lw]
  obtain r1 s1 where it: "pbind (train_epoch tr) (\<lambda>_. train_evaluation tr (evaluators tr)) ?s0 = (r1, s1)"
    by (cases "pbind (train_epoch tr) (\<lambda>_. train_evaluation tr (evaluators tr)) ?s0")
  have after: "training_loop (Suc fuel) tr evs1 s1 = Some (Inr evs1, s1\<lparr>trace := trace s1 @ [ReadStop True]\<rparr>)
         \<and> trace s1 = trace s @ iteration_events tr (grad_enabled s)
         \<and> grad_enabled s1 = grad_enabled s
         \<and> (\<exists>ys. results_history (training_context s1)
                    = results_history (training_context s) @ ys
                \<and> length ys = (if evaluation_configured tr then 1 else 0))"
    if r1: "r1 = Inr evs1" for evs1
  proof -
    from it r1 obtain sa where
      ep: "train_epoch tr ?s0 = (Inr (), sa)" and
      ev: "train_evaluation tr (evaluators tr) sa = (Inr evs1, s1)"
      by (auto simp: pbind_Inr)
    from e have "- 1 \<le> current_epoch (training_context ?s0)" by simp
    from epoch_sets_flag[OF cb l lw ep this] have fa: "stop_training (training_context sa)" .
    from staysD[OF keeps_halt_steps(3)[OF kp(1)] _ ev] fa
    have f1: "stop_training (training_context s1)" by (simp add: control_def)
    from emitsD[OF emits_train_epoch _ ep, of "grad_enabled s"]
    have ta: "trace sa = trace s @ ReadStop False # epoch_events tr (grad_enabled s)"
      and ga: "grad_enabled sa = grad_enabled s"
      by simp_all
    from train_evaluation_Inr[OF ev]
    have t1: "trace s1 = trace s @ iteration_events tr (grad_enabled s)"
      and g1: "grad_enabled s1 = grad_enabled s"
      by (simp_all add: ta ga iteration_events_def)
    from epoch_history[OF kp(2) ep]
    have ha: "results_history (training_context sa) = results_history (training_context s)"
      by simp
    from evaluation_history[OF kp(2) ev]
    have h1: "\<exists>ys. results_history (training_context s1)
                    = results_history (training_context s) @ ys
                \<and> length ys = (if evaluation_configured tr then 1 else 0)"
      by (simp add: ha evaluation_configured_def)
    from f1 have "training_loop (Suc fuel) tr evs1 s1
        = Some (Inr evs1, s1\<lparr>trace := trace s1 @ [ReadStop True]\<rparr>)"
      by (simp add: Let_def)
    with t1 g1 h1 show ?thesis by blast
  qed
  have unfold: "training_loop (Suc (Suc fuel)) tr (evaluators tr) s =
      (case r1 of Inl e \<Rightarrow> Some (Inl e, s1) | Inr evs1 \<Rightarrow> training_loop (Suc fuel) tr evs1 s1)"
    by (subst training_loop.simps(2))
       (simp add: Let_def ns it del: training_loop.simps split: sum.splits)
  show "training_loop (Suc (Suc fuel)) tr (evaluators tr) s \<noteq> None"
    unfolding unfold using after by (cases r1) auto
  assume "training_loop (Suc (Suc fuel)) tr (evaluators tr) s = Some (Inr evs', s')"
  then show "trace s' = trace s @ iteration_events tr (grad_enabled s) @ [ReadStop True]
         \<and> grad_enabled s' = grad_enabled s
         \<and> (\<exists>ys. results_history (training_context s')
                    = results_history (training_context s) @ ys
                \<and> length ys = (if evaluation_configured tr then 1 else 0))"
    unfolding unfold using after by (cases r1) auto
qed

lemma default_injected:
  "\<not> list_ex is_stopping_criterion (supplied cbs) \<Longrightarrow>
     callbacks (fst (Trainer_init lw dl eval_dls key evs cbs k))
       = supplied cbs @ [NumberOfEpochsStoppingCriterionCallback 1]"
  by (auto simp: Trainer_init_def supplied_def split: option.splits)

lemma Trainer_init_fields:
  "calculate_loss (fst (Trainer_init lw dl eval_dls key evs cbs k)) = lw"
  "evaluation_data_loaders (fst (Trainer_init lw dl eval_dls key evs cbs k)) = eval_dls"
  "evaluators (fst (Trainer_init lw dl eval_dls key evs cbs k)) = evs"
  by (simp_all add: Trainer_init_def Let_def split: prod.splits)

lemma control_stays:
  "stays (\<lambda>v. v = control (training_context s)) m \<Longrightarrow> m s = (r, s') \<Longrightarrow>
     control (training_context s') = control (training_context s)"
  using staysD[of "\<lambda>v. v = control (training_context s)" m s r s'] by simp

lemma single_epoch_run:
  assumes cb: "callbacks tr = l @ [NumberOfEpochsStoppingCriterionCallback 1]"
    and l: "\<forall>cb\<in>set l. quiet cb"
    and lw: "quiet_loss (calculate_loss tr)"
    and e: "current_epoch (training_context s) = - 1"
    and ns: "\<not> stop_training (training_context s)"
  shows "run (Suc (Suc fuel)) tr s \<noteq> None"
    and "run (Suc (Suc fuel)) tr s = Some (Inr history, s') \<Longrightarrow>
           trace s' = trace s @ run_events tr (grad_enabled s) 1
         \<and> (\<exists>ys. history = results_history (training_context s) @ ys
                \<and> length ys = (if evaluation_configured tr then 1 else 0))"
proof -
  note kp = default_trainer_keeps[OF cb l lw]
  obtain r1 s1 where a: "for_callbacks on_training_start (callbacks tr) s = (r1, s1)"
    by (cases "for_callbacks on_training_start (callbacks tr) s")
  have "stays (\<lambda>v. v = control (training_context s)) (for_callbacks on_training_start (callbacks tr))"
    by (rule stays_for_callbacks) (simp add: kp(3))
  from control_stays[where m = "for_callbacks on_training_start (callbacks tr)", OF this a]
  have c1: "current_epoch (training_context s1) = - 1" "\<not> stop_training (training_context s1)"
    "results_history (training_context s1) = results_history (training_context s)"
    using e ns by (simp_all add: control_def)
  then have e1: "- 1 \<le> current_epoch (training_context s1)" by simp
  note loop = single_epoch_loop[OF cb l lw e1 c1(2), of fuel]
  show "run (Suc (Suc fuel)) tr s \<noteq> None"
  proof (cases r1)
    case (Inl x)
    with a show ?thesis by (simp add: run_def)
  next
    case (Inr u)
    from loop(1) obtain q where
      q: "training_loop (Suc (Suc fuel)) tr (evaluators tr) s1 = Some q"
      by (cases "training_loop (Suc (Suc fuel)) tr (evaluators tr) s1") simp_all
    from a Inr q show ?thesis
      by (simp add: run_def del: training_loop.simps split: prod.splits sum.splits)
  qed
  assume r: "run (Suc (Suc fuel)) tr s = Some (Inr history, s')"
  with a obtain evs' s2 s3 where
    a': "for_callbacks on_training_start (callbacks tr) s = (Inr (), s1)" and
    b: "training_loop (Suc (Suc fuel)) tr (evaluators tr) s1 = Some (Inr evs', s2)" and
    c: "for_callbacks on_training_end (callbacks tr) s2 = (Inr (), s3)" and
    d: "model_train False s3 = (Inr (), s')" and
    h: "history = results_history (training_context s')"
    by (auto simp: run_def pseq_Inr simp del: training_loop.simps
          split: prod.splits sum.splits option.splits)
  from for_callbacks_Inr[OF a'] have 1: "trace s1 = trace s @ hooks on_training_start (callbacks tr)"
    "grad_enabled s1 = grad_enabled s" by simp_all
  from loop(2)[OF b] obtain ys where
    2: "trace s2 = trace s1 @ iteration_events tr (grad_enabled s1) @ [ReadStop True]"
      "results_history (training_context s2) = results_history (training_context s1) @ ys"
      "length ys = (if evaluation_configured tr then 1 else 0)"
    by blast
  from for_callbacks_Inr[OF c] have 3: "trace s3 = trace s2 @ hooks on_training_end (callbacks tr)"
    by simp
  from d have 4: "trace s' = trace s3 @ [ModelTrain False]"
    "results_history (training_context s') = results_history (training_context s3)"
    by (simp_all add: model_train_Inr)
  have t: "trace s' = trace s @ run_events tr (grad_enabled s) 1"
    by (simp add: 1 2 3 4 run_events_def)
  have "history = results_history (training_context s) @ ys"
    by (simp add: h 4 hooks_history[OF kp(2) c] 2 c1)
  with t 2(3) show "trace s' = trace s @ run_events tr (grad_enabled s) 1
         \<and> (\<exists>ys. history = results_history (training_context s) @ ys
                \<and> length ys = (if evaluation_configured tr then 1 else 0))"
    by blast
qed

subsection \<open>Running the concrete setting\<close>

lemmas engine_defs = pbind_def pseq_def ret_def raise_def log_def modify_context_def
  modify_system_def getitem_def predict_batch_def call_hook_def loss_call_def
  loss_backward_def loss_item_def train_batch_def perform_opt_step_def train_epoch_def
  model_train_def the_system_def model_to_def tensor_to_def as_list_def
  train_evaluation_def run_def evaluate_def call_evaluator_def no_grad_def as_dict_def
  Trainer_init_def Trainer_context_def System_init_def
  NumberOfEpochsStoppingCriterionCallback_def Let_def

lemmas demo_defs = demo_state_def demo_trainer_def demo_model_def demo_batch_def demo_loss_def
  demo_evaluator_def demo_callback_def two_def five_def

lemma demo_trace: "trace demo_state = []"
  by (simp add: demo_state_def)

lemma demo_evaluate:
  "fst (evaluate [demo_batch 7] [(''acc'', demo_evaluator)] ''input'' demo_state)
     = Inr ([(''acc'', 3)],
            [(''acc'', demo_evaluator\<lparr>received := [Reset, Step (Tensor 7 CPU) (demo_batch 7) None, Calculate]\<rparr>)])"
  by (simp add: engine_defs demo_defs cong: prod.case_cong_weak sum.case_cong_weak)

lemma demo_epoch: "fst (train_epoch (demo_trainer 2 five) demo_state) = Inr ()"
  by (simp add: engine_defs demo_defs cong: prod.case_cong_weak sum.case_cong_weak)




lemma demo_trainer_fields:
  "callbacks (demo_trainer k dl) = [NumberOfEpochsStoppingCriterionCallback 1]"
  "train_data_loader (demo_trainer k dl) = dl"
  "gradient_accumulation_steps (demo_trainer k dl) = k"
  "evaluation_data_loaders (demo_trainer k dl) = None"
  "evaluators (demo_trainer k dl) = None"
  by (simp_all add: demo_trainer_def Trainer_init_def)

lemma demo_grad: "grad_enabled demo_state"
  by (simp add: demo_state_def)

lemmas facade_defs = train_on_multi_gpus_def train_def unwrap_model_def to_def DataParallel_def

lemma demo_multi_gpu:
  "map_option fst (fst (train_on_multi_gpus (Suc (Suc 0)) True demo_loss two None ''input'' None None 1
                     None demo_state)) = Some (Inr ())"
  by (simp add: facade_defs engine_defs demo_defs cong: prod.case_cong_weak sum.case_cong_weak)

lemma demo_device: "device (the_system demo_state) = CPU"
  by (simp add: engine_defs demo_defs)

lemma demo_eval_run:
  "map_option fst (run (Suc (Suc 0)) demo_eval_trainer demo_state)
     = Some (Inr [[(''dev'', [(''acc'', 3)])]])"
  by (simp add: demo_eval_trainer_def engine_defs demo_defs
        cong: prod.case_cong_weak sum.case_cong_weak)

lemma demo_eval_run_returns:
  "run (Suc (Suc 0)) demo_eval_trainer demo_state
     = Some (Inr [[(''dev'', [(''acc'', 3)])]],
             snd (the (run (Suc (Suc 0)) demo_eval_trainer demo_state)))"
  using demo_eval_run by (cases "run (Suc (Suc 0)) demo_eval_trainer demo_state") auto

lemma demo_eval_keeps_history: "keeps_history demo_eval_trainer"
  by (auto simp: keeps_history_def hook_keeps_def loss_keeps_def control_def demo_defs
       demo_eval_trainer_def Trainer_init_def NumberOfEpochsStoppingCriterionCallback_def
       split: option.splits if_splits)

lemma demo_eval_configured: "evaluation_configured demo_eval_trainer"
  by (simp add: evaluation_configured_def demo_eval_trainer_def Trainer_init_def)

lemma demo_history: "results_history (training_context demo_state) = []"
  by (simp add: demo_state_def Trainer_context_def)

lemma demo_quiet: "quiet demo_callback"
  by (simp add: quiet_def demo_callback_def)

lemma demo_quiet_loss: "quiet_loss demo_loss"
  by (auto simp: quiet_loss_def demo_loss_def split: option.splits)

lemma demo_train:
  "map_option fst (fst (train (Suc (Suc 0)) demo_loss two (Some [(''dev'', [demo_batch 7])]) ''input''
                          (Some [(''acc'', demo_evaluator)]) (Some [demo_callback]) 1 demo_state))
     = Some (Inr [[(''dev'', [(''acc'', 3)])]])"
  by (simp add: train_def engine_defs demo_defs
        cong: prod.case_cong_weak sum.case_cong_weak)

lemma demo_epoch_four: "fst (train_epoch (demo_trainer 2 four) demo_state) = Inr ()"
  by (simp add: four_def engine_defs demo_defs cong: prod.case_cong_weak sum.case_cong_weak)

lemma demo_moved_placement:
  "resident (model (the_system demo_moved)) = CUDA"
  "device (the_system demo_moved) = CPU"
  "params (model (the_system demo_moved)) = [(''weight'', 1)]"
  "wrap (model (the_system demo_moved)) = 0"
  by (simp_all add: demo_moved_def engine_defs demo_defs)

section \<open>The claims\<close>

subsection \<open>Evaluation\<close>

text \<open>
  Claim C8. Whenever \<^verbatim>\<open>evaluate\<close> returns, for every data loader and every dict of
  evaluators: the calls it made are, in this order, \<^verbatim>\<open>model.train(False)\<close>, one
  \<^verbatim>\<open>reset()\<close> per evaluator, then per batch one \<^verbatim>\<open>predict_batch\<close> with gradient
  tracking off followed by one \<^verbatim>\<open>step\<close> per evaluator, then one \<^verbatim>\<open>calculate()\<close> per
  evaluator; every evaluator has received exactly one \<open>Reset\<close>, then for each batch one
  \<open>Step\<close> with the model's output for that batch, the batch and the facade's last
  activation, then one \<open>Calculate\<close>; the keys of the result are exactly the names of the
  evaluators, each mapped to what an evaluator of that name answered to \<^verbatim>\<open>calculate()\<close>;
  the model is left in inference mode, and the gradient switch where it was.
\<close>

theorem evaluate_protocol:
  assumes "evaluate data_loader evs key s = (Inr (results, evs'), s')"
  shows "trace s' = trace s @ [ModelTrain False] @ map EvaluatorReset (map fst evs) @
           concat (map (\<lambda>b. PredictBatch False # map EvaluatorStep (map fst evs)) data_loader) @
           map EvaluatorCalculate (map fst evs)
       \<and> (\<exists>outs. map (model_output (the_system s) key) data_loader = map Inr outs \<and>
             evs' = map (\<lambda>(name, ev). (name, ev\<lparr>received := received ev @ [Reset] @
                      map (\<lambda>(out, b). Step out b (last_activation (the_system s)))
                        (zip outs data_loader) @ [Calculate]\<rparr>)) evs)
       \<and> fst ` set results = fst ` set evs
       \<and> (\<forall>(name, r) \<in> set results. \<exists>ev. (name, ev) \<in> set evs' \<and> respond ev (received ev) = Inr r)
       \<and> \<not> training (model (the_system s'))
       \<and> grad_enabled s' = grad_enabled s"
proof -
  note a = evaluate_Inr[OF assms]
  have t: "trace s' = trace s @ [ModelTrain False] @ map EvaluatorReset (map fst evs) @
           concat (map (\<lambda>b. PredictBatch False # map EvaluatorStep (map fst evs)) data_loader) @
           map EvaluatorCalculate (map fst evs)"
    by (simp add: a(1) evaluate_events_def)
  from a(2) have e: "\<exists>outs. map (model_output (the_system s) key) data_loader = map Inr outs \<and>
             evs' = map (\<lambda>(name, ev). (name, ev\<lparr>received := received ev @ [Reset] @
                      map (\<lambda>(out, b). Step out b (last_activation (the_system s)))
                        (zip outs data_loader) @ [Calculate]\<rparr>)) evs"
    by (simp add: deliver_def)
  from a(3) obtain rs where rs: "results = as_dict rs" "answered evs' rs" by blast
  from a(2) have names: "map fst evs' = map fst evs" by (auto simp: names_deliver)
  have "fst ` set results = set (map fst rs)"
    by (simp add: rs(1) as_dict_keys)
  also have "\<dots> = set (map fst evs)"
    by (simp only: answered_names[OF rs(2)] names)
  finally have k: "fst ` set results = fst ` set evs" by simp
  have v: "\<forall>(name, r) \<in> set results. \<exists>ev. (name, ev) \<in> set evs' \<and> respond ev (received ev) = Inr r"
    using as_dict_subset[of rs] answered_member[OF rs(2)] by (auto simp: rs(1))
  have m: "\<not> training (model (the_system s'))"
    by (simp add: a(1) the_system_def inference_mode_def)
  have g: "grad_enabled s' = grad_enabled s" by (simp add: a(1))
  from t e k v m g show ?thesis by blast
qed

text \<open>
  The scenario of the claim: one evaluator named \<^verbatim>\<open>acc\<close> and a data loader of one
  batch. The result has exactly the key \<^verbatim>\<open>acc\<close>, and \<^verbatim>\<open>reset\<close>, \<^verbatim>\<open>step\<close> and
  \<^verbatim>\<open>calculate\<close> were each called once.
\<close>

theorem evaluate_protocol_witness:
  "fst (evaluate [demo_batch 7] [(''acc'', demo_evaluator)] ''input'' demo_state)
     = Inr ([(''acc'', 3)],
            [(''acc'', demo_evaluator\<lparr>received := [Reset, Step (Tensor 7 CPU) (demo_batch 7) None, Calculate]\<rparr>)])
   \<and> fst ` set [(''acc'', 3::nat)] = {''acc''}
   \<and> trace (snd (evaluate [demo_batch 7] [(''acc'', demo_evaluator)] ''input'' demo_state)) =
       [ModelTrain False, EvaluatorReset ''acc'', PredictBatch False, EvaluatorStep ''acc'',
        EvaluatorCalculate ''acc'']"
proof -
  let ?r = "evaluate [demo_batch 7] [(''acc'', demo_evaluator)] ''input'' demo_state"
  have "?r = (Inr ([(''acc'', 3)],
            [(''acc'', demo_evaluator\<lparr>received := [Reset, Step (Tensor 7 CPU) (demo_batch 7) None, Calculate]\<rparr>)]), snd ?r)"
    using demo_evaluate by (simp add: prod_eq_iff)
  from evaluate_protocol[OF this]
  have "trace (snd ?r) = trace demo_state @ [ModelTrain False] @ map EvaluatorReset (map fst [(''acc'', demo_evaluator)]) @
           concat (map (\<lambda>b. PredictBatch False # map EvaluatorStep (map fst [(''acc'', demo_evaluator)])) [demo_batch 7]) @
           map EvaluatorCalculate (map fst [(''acc'', demo_evaluator)])"
    and "fst ` set [(''acc'', 3::nat)] = fst ` set [(''acc'', demo_evaluator)]"
    by blast+
  then show ?thesis
    by (simp add: demo_evaluate demo_trace)
qed

subsection \<open>Gradient accumulation\<close>

text \<open>
  Claim C4. Whenever the epoch step returns, the calls it made are those of its batches in
  turn, between the calls that open and close the epoch, and the batch at the zero-based
  index \<open>i\<close> is an optimization boundary if and only if \<open>i\<close> modulo the accumulation
  step count is zero or \<open>i\<close> is the last index of the epoch; a batch makes the optimizer
  step (and then resets the gradients) exactly when it is an optimization boundary. With
  a step count of 2 and 5 batches the boundaries are the indices 0, 2 and 4. (A step
  count of zero makes the first batch raise, so the epoch step does not return.)
\<close>

theorem optimization_boundaries:
  assumes "train_epoch tr s = (Inr u, s')"
  shows "trace s' = trace s @ [ModelTrain True] @ hooks on_epoch_start (callbacks tr) @ [ZeroGrad] @
           concat (map (\<lambda>i. batch_events (callbacks tr) (grad_enabled s)
                     (int i mod gradient_accumulation_steps tr = 0
                      \<or> i = length (train_data_loader tr) - 1))
                 [0..<length (train_data_loader tr)]) @
           hooks on_epoch_end (callbacks tr)
       \<and> (\<forall>boundary. (OptimizerStep \<in> set (batch_events (callbacks tr) (grad_enabled s) boundary)) = boundary)
       \<and> (gradient_accumulation_steps tr = 2 \<and> length (train_data_loader tr) = 5 \<longrightarrow>
            filter (\<lambda>i. int i mod gradient_accumulation_steps tr = 0
                      \<or> i = length (train_data_loader tr) - 1)
              [0..<length (train_data_loader tr)] = [0, 2, 4])"
proof -
  let ?n = "length (train_data_loader tr)"
  let ?k = "gradient_accumulation_steps tr"
  have b: "optimization_boundary ?k ?n i = (int i mod ?k = 0 \<or> i = ?n - 1)" if "i < ?n" for i
    using that by (auto simp: optimization_boundary_def)
  have "map (\<lambda>i. batch_events (callbacks tr) (grad_enabled s) (optimization_boundary ?k ?n i)) [0..<?n]
      = map (\<lambda>i. batch_events (callbacks tr) (grad_enabled s) (int i mod ?k = 0 \<or> i = ?n - 1)) [0..<?n]"
    by (rule map_cong) (simp_all add: b)
  with emitsD[OF emits_train_epoch refl assms]
  have 1: "trace s' = trace s @ [ModelTrain True] @ hooks on_epoch_start (callbacks tr) @ [ZeroGrad] @
           concat (map (\<lambda>i. batch_events (callbacks tr) (grad_enabled s)
                     (int i mod ?k = 0 \<or> i = ?n - 1)) [0..<?n]) @
           hooks on_epoch_end (callbacks tr)"
    by (simp add: epoch_events_def)
  have 2: "\<forall>boundary. (OptimizerStep \<in> set (batch_events (callbacks tr) (grad_enabled s) boundary)) = boundary"
    by (auto simp: batch_events_def hooks_def)
  have 3: "?k = 2 \<and> ?n = 5 \<longrightarrow>
            filter (\<lambda>i. int i mod ?k = 0 \<or> i = ?n - 1) [0..<?n] = [0, 2, 4]"
  proof
    assume "?k = 2 \<and> ?n = 5"
    moreover have "[0..<5] = [0, 1, 2, 3, 4]" by (simp add: upt_rec)
    ultimately show "filter (\<lambda>i. int i mod ?k = 0 \<or> i = ?n - 1) [0..<?n] = [0, 2, 4]"
      by simp
  qed
  from 1 2 3 show ?thesis by blast
qed

text \<open>
  The scenario run on the engine: step count 2 and five batches. Each \<open>LossItem\<close> closes a
  batch, so the optimizer steps in the batches 0, 2 and 4.
\<close>

theorem optimization_boundaries_witness:
  "train_epoch (demo_trainer 2 five) demo_state
     = (Inr (), snd (train_epoch (demo_trainer 2 five) demo_state))
   \<and> filter (\<lambda>e. e \<in> {OptimizerStep, LossItem})
        (trace (snd (train_epoch (demo_trainer 2 five) demo_state)))
     = [OptimizerStep, LossItem, LossItem, OptimizerStep, LossItem, LossItem, OptimizerStep, LossItem]
   \<and> filter (\<lambda>i. int i mod 2 = 0 \<or> i = 5 - 1) [0..<5] = [0, 2, 4]"
proof -
  let ?r = "train_epoch (demo_trainer 2 five) demo_state"
  have r: "?r = (Inr (), snd ?r)"
    using demo_epoch by (simp add: prod_eq_iff)
  have u: "[0..<5] = [0, 1, 2, 3, 4]" by (simp add: upt_rec)
  from optimization_boundaries[OF r]
  have "trace (snd ?r) = trace demo_state @ [ModelTrain True] @
           hooks on_epoch_start (callbacks (demo_trainer 2 five)) @ [ZeroGrad] @
           concat (map (\<lambda>i. batch_events (callbacks (demo_trainer 2 five)) (grad_enabled demo_state)
                     (int i mod gradient_accumulation_steps (demo_trainer 2 five) = 0
                      \<or> i = length (train_data_loader (demo_trainer 2 five)) - 1))
                 [0..<length (train_data_loader (demo_trainer 2 five))]) @
           hooks on_epoch_end (callbacks (demo_trainer 2 five))"
    and "gradient_accumulation_steps (demo_trainer 2 five) = 2
           \<and> length (train_data_loader (demo_trainer 2 five)) = 5 \<longrightarrow>
         filter (\<lambda>i. int i mod gradient_accumulation_steps (demo_trainer 2 five) = 0
                      \<or> i = length (train_data_loader (demo_trainer 2 five)) - 1)
              [0..<length (train_data_loader (demo_trainer 2 five))] = [0, 2, 4]"
    by blast+
  then show ?thesis
    using r by (simp add: demo_trainer_fields five_def u demo_trace demo_grad
         batch_events_def hooks_def)
qed

text \<open>
  Claim C1 says that for every accumulation step count \<open>k \<ge> 1\<close> and every epoch of
  \<open>n \<ge> 1\<close> batches the epoch step calls the optimizer's \<^verbatim>\<open>step()\<close> exactly
  \<open>ceil(n / k)\<close> times. The engine does step at the batches it marks as boundaries, but
  it marks the batches whose index is a multiple of \<open>k\<close>, the very first one included,
  and the last batch again (\<open>steps_per_epoch\<close>). With a step count of 2 and four batches
  it steps three times, in the batches 0, 2 and 3, where \<open>ceil(4 / 2)\<close> is 2.
\<close>

theorem three_steps_for_four_batches:
  "fst (train_epoch (demo_trainer 2 four) demo_state) = Inr ()
   \<and> filter (\<lambda>e. e \<in> {OptimizerStep, LossItem})
        (trace (snd (train_epoch (demo_trainer 2 four) demo_state)))
       = [OptimizerStep, LossItem, LossItem, OptimizerStep, LossItem, OptimizerStep, LossItem]
   \<and> length (filter (\<lambda>e. e = OptimizerStep)
        (trace (snd (train_epoch (demo_trainer 2 four) demo_state)))) = 3
   \<and> (length four + 2 - 1) div 2 = 2"
proof -
  let ?r = "train_epoch (demo_trainer 2 four) demo_state"
  have r: "?r = (Inr (), snd ?r)"
    using demo_epoch_four by (simp add: prod_eq_iff)
  have u: "[0..<4] = [0, 1, 2, 3]" by (simp add: upt_rec)
  from emitsD[OF emits_train_epoch refl r]
  have t: "trace (snd ?r) = epoch_events (demo_trainer 2 four) True"
    by (simp add: demo_trace demo_grad)
  have "filter (\<lambda>e. e \<in> {OptimizerStep, LossItem}) (epoch_events (demo_trainer 2 four) True)
       = [OptimizerStep, LossItem, LossItem, OptimizerStep, LossItem, OptimizerStep, LossItem]"
    by (simp add: epoch_events_def batch_events_def hooks_def optimization_boundary_def
          demo_trainer_fields four_def u)
  moreover have "length (filter (\<lambda>e. e = OptimizerStep) (epoch_events (demo_trainer 2 four) True)) = 3"
    by (simp add: epoch_events_def batch_events_def hooks_def optimization_boundary_def
          demo_trainer_fields four_def u)
  moreover have "(length four + 2 - 1) div 2 = 2" by (simp add: four_def)
  ultimately show ?thesis using demo_epoch_four by (simp add: t)
qed

subsection \<open>The order of the hooks\<close>



subsection \<open>The halt flag\<close>



subsection \<open>The caller's list of callbacks\<close>

text \<open>
  Claim C9. When a non-empty list of callbacks without a stopping criterion is passed to
  \<^verbatim>\<open>train\<close>, the caller's list object holds one element more after the call, the
  default stopping criterion, at its end; the trainer's list is that same list; and a
  further call with the list finds a stopping criterion in it and leaves it as it is.
\<close>

theorem init_appends_to_callers_list:
  assumes "cbs \<noteq> []" and "\<not> list_ex is_stopping_criterion cbs"
  shows "snd (train fuel lw dl eval_dls key evs (Some cbs) k s)
           = Some (cbs @ [NumberOfEpochsStoppingCriterionCallback 1])
       \<and> callbacks (fst (Trainer_init lw dl eval_dls key evs (Some cbs) k))
           = cbs @ [NumberOfEpochsStoppingCriterionCallback 1]
       \<and> length (cbs @ [NumberOfEpochsStoppingCriterionCallback 1]) = Suc (length cbs)
       \<and> snd (train fuel' lw' dl' eval_dls' key' evs'
                 (Some (cbs @ [NumberOfEpochsStoppingCriterionCallback 1])) k' s')
           = Some (cbs @ [NumberOfEpochsStoppingCriterionCallback 1])"
  using assms
  by (simp add: train_def Trainer_init_def Let_def NumberOfEpochsStoppingCriterionCallback_def
        split: prod.splits)

theorem init_appends_to_callers_list_witness:
  "[demo_callback] \<noteq> [] \<and> \<not> list_ex is_stopping_criterion [demo_callback]
   \<and> snd (train 2 demo_loss [demo_batch 0] None ''input'' None (Some [demo_callback]) 1 demo_state)
       = Some [demo_callback, NumberOfEpochsStoppingCriterionCallback 1]"
proof -
  have a: "[demo_callback] \<noteq> []" by simp
  have b: "\<not> list_ex is_stopping_criterion [demo_callback]"
    by (simp add: demo_callback_def)
  from init_appends_to_callers_list[OF a b, of 2 demo_loss "[demo_batch 0]" None "''input''" None 1 demo_state]
  show ?thesis using a b by simp
qed

subsection \<open>Loading the model's state\<close>

text \<open>
  Claim C10. However \<^verbatim>\<open>load_model_state\<close> ends, the facade's recorded device is the one
  it was before the call. When it returns, the model resides on that device, wherever it
  resided before, and the state is the one before the call but for the model, which has
  the values of the file in the parameters it knows and resides on the facade's device;
  a strict load that returns reports no missing and no unexpected key. The call does
  return for every readable file when the load is not strict, and, strict or not, when
  the file holds exactly the keys of a model that is plain or wrapped once: then it
  reports no key, and every parameter has the file's value. An unreadable file makes it
  raise and leaves the state as it was.
\<close>

theorem load_model_state_device:
  "(load_model_state f strict s = (r, s') \<longrightarrow>
      device (the_system s') = device (the_system s))
   \<and> (load_model_state f strict s = (Inr invalid_keys, s') \<longrightarrow>
        resident (model (the_system s')) = device (the_system s)
        \<and> (\<exists>st. f = StateFile st
              \<and> s' = s\<lparr>training_context := (training_context s)\<lparr>system := (the_system s)
                         \<lparr>model := (loaded (model (the_system s)) st)
                                     \<lparr>resident := device (the_system s)\<rparr>\<rparr>\<rparr>\<rparr>)
        \<and> (strict \<longrightarrow> invalid_keys = ([], [])))
   \<and> (\<forall>st. f = StateFile st \<and> \<not> strict \<longrightarrow>
          (\<exists>keys s1. load_model_state f strict s = (Inr keys, s1)))
   \<and> (\<forall>st. f = StateFile st \<and> wrap (model (the_system s)) \<le> 1
             \<and> set (map fst st) = set (map fst (params (model (the_system s)))) \<longrightarrow>
          (\<exists>s1. load_model_state f strict s = (Inr ([], []), s1)
              \<and> params (model (the_system s1))
                   = map (\<lambda>(k, v). (k, case map_of st k of Some v' \<Rightarrow> v' | None \<Rightarrow> v))
                       (params (model (the_system s)))))
   \<and> (f = Unreadable \<longrightarrow> load_model_state f strict s = (Inl RuntimeError, s))"
proof -
  let ?m = "model (the_system s)"
  have A: "load_model_state f strict s = (r, s') \<longrightarrow>
      device (the_system s') = device (the_system s)"
    by (auto simp: load_model_state_def torch_load_def pbind_def ret_def raise_def Let_def
        modify_system_def modify_context_def the_system_def model_to_def
      split: saved_file.splits prod.splits sum.splits)
  have B: "load_model_state f strict s = (Inr invalid_keys, s') \<longrightarrow>
        resident (model (the_system s')) = device (the_system s)
        \<and> (\<exists>st. f = StateFile st
              \<and> s' = s\<lparr>training_context := (training_context s)\<lparr>system := (the_system s)
                         \<lparr>model := (loaded ?m st)\<lparr>resident := device (the_system s)\<rparr>\<rparr>\<rparr>\<rparr>)
        \<and> (strict \<longrightarrow> invalid_keys = ([], []))"
  proof
    assume run: "load_model_state f strict s = (Inr invalid_keys, s')"
    then obtain st where f: "f = StateFile st"
      by (cases f) (auto simp: load_model_state_def torch_load_def pbind_def raise_def)
    obtain r0 m' where l: "load_state_dict ?m (file_state ?m st) strict = (r0, m')"
      by (cases "load_state_dict ?m (file_state ?m st) strict")
    from load_state_dict_model[of ?m st strict] l have m': "m' = loaded ?m st" by simp
    from run l have r0: "r0 = Inr invalid_keys"
      and s': "s' = snd (modify_system (\<lambda>sys. sys\<lparr>model := model_to (device sys) m'\<rparr>) s)"
      by (auto simp: f load_model_state_StateFile split: sum.splits)
    have 1: "s' = s\<lparr>training_context := (training_context s)\<lparr>system := (the_system s)
                         \<lparr>model := (loaded ?m st)\<lparr>resident := device (the_system s)\<rparr>\<rparr>\<rparr>\<rparr>"
      by (simp add: s' m' modify_system_def modify_context_def the_system_def model_to_def)
    then have 2: "resident (model (the_system s')) = device (the_system s)"
      by (simp add: the_system_def)
    have 3: "strict \<longrightarrow> invalid_keys = ([], [])"
      using l r0 load_state_dict_strict[of ?m "file_state ?m st" invalid_keys m'] by auto
    from 1 2 3 f show "resident (model (the_system s')) = device (the_system s)
        \<and> (\<exists>st. f = StateFile st
              \<and> s' = s\<lparr>training_context := (training_context s)\<lparr>system := (the_system s)
                         \<lparr>model := (loaded ?m st)\<lparr>resident := device (the_system s)\<rparr>\<rparr>\<rparr>\<rparr>)
        \<and> (strict \<longrightarrow> invalid_keys = ([], []))"
      by blast
  qed
  have C: "\<forall>st. f = StateFile st \<and> \<not> strict \<longrightarrow>
          (\<exists>keys s1. load_model_state f strict s = (Inr keys, s1))"
  proof (intro allI impI)
    fix st assume a: "f = StateFile st \<and> \<not> strict"
    obtain r0 m' where l: "load_state_dict ?m (file_state ?m st) False = (r0, m')"
      by (cases "load_state_dict ?m (file_state ?m st) False")
    with load_state_dict_lax[of ?m "file_state ?m st"] obtain keys where "r0 = Inr keys"
      by auto
    with a l show "\<exists>keys s1. load_model_state f strict s = (Inr keys, s1)"
      by (simp add: load_model_state_StateFile)
  qed
  have D: "\<forall>st. f = StateFile st \<and> wrap ?m \<le> 1
             \<and> set (map fst st) = set (map fst (params ?m)) \<longrightarrow>
          (\<exists>s1. load_model_state f strict s = (Inr ([], []), s1)
              \<and> params (model (the_system s1))
                   = map (\<lambda>(k, v). (k, case map_of st k of Some v' \<Rightarrow> v' | None \<Rightarrow> v))
                       (params ?m))"
  proof (intro allI impI)
    fix st
    assume a: "f = StateFile st \<and> wrap ?m \<le> 1
             \<and> set (map fst st) = set (map fst (params ?m))"
    then have w: "wrap ?m = 0 \<or> wrap ?m = 1" by auto
    obtain r0 m' where l: "load_state_dict ?m (file_state ?m st) strict = (r0, m')"
      by (cases "load_state_dict ?m (file_state ?m st) strict")
    from load_state_dict_agree[of ?m st strict] a l have r0: "r0 = Inr ([], [])" by simp
    from load_state_dict_model[of ?m st strict] l have m': "m' = loaded ?m st" by simp
    let ?s1 = "snd (modify_system (\<lambda>sys. sys\<lparr>model := model_to (device sys) m'\<rparr>) s)"
    have run: "load_model_state f strict s = (Inr ([], []), ?s1)"
      using a l r0 by (simp add: load_model_state_StateFile)
    have look: "map_of (file_state ?m st) (state_key ?m k) = map_of st k" for k
      using w map_of_prefixed[of "''module.''" st k]
      by (auto simp: file_state_def state_key_def)
    have ps: "model (the_system ?s1) = (loaded ?m st)\<lparr>resident := device (the_system s)\<rparr>"
      by (simp add: m' modify_system_def modify_context_def the_system_def model_to_def)
    have "params (model (the_system ?s1))
            = map (\<lambda>(k, v). (k, case map_of st k of Some v' \<Rightarrow> v' | None \<Rightarrow> v)) (params ?m)"
      unfolding ps by (simp add: loaded_def look)
    with run show "\<exists>s1. load_model_state f strict s = (Inr ([], []), s1)
              \<and> params (model (the_system s1))
                   = map (\<lambda>(k, v). (k, case map_of st k of Some v' \<Rightarrow> v' | None \<Rightarrow> v))
                       (params ?m)"
      by blast
  qed
  have E: "f = Unreadable \<longrightarrow> load_model_state f strict s = (Inl RuntimeError, s)"
    by (simp add: load_model_state_def torch_load_def pbind_def raise_def)
  from A B C D E show ?thesis by blast
qed

text \<open>
  The model has been moved to CUDA behind the facade's back, and the facade records the
  CPU. A strict load of a file with the model's one key returns, the model is back on the
  CPU, the recorded device is unchanged, and the parameter has the file's value.
\<close>

theorem load_model_state_device_witness:
  "resident (model (the_system demo_moved)) = CUDA
   \<and> device (the_system demo_moved) = CPU
   \<and> params (model (the_system demo_moved)) = [(''weight'', 1)]
   \<and> fst (load_model_state (StateFile [(''weight'', 5)]) True demo_moved) = Inr ([], [])
   \<and> resident (model (the_system
         (snd (load_model_state (StateFile [(''weight'', 5)]) True demo_moved)))) = CPU
   \<and> device (the_system
         (snd (load_model_state (StateFile [(''weight'', 5)]) True demo_moved))) = CPU
   \<and> params (model (the_system
         (snd (load_model_state (StateFile [(''weight'', 5)]) True demo_moved)))) = [(''weight'', 5)]"
proof -
  let ?f = "StateFile [(''weight'', 5)]"
  let ?r = "load_model_state ?f True demo_moved"
  note th = load_model_state_device[of ?f True demo_moved "fst ?r" "snd ?r" "([], [])"]
  note A = th[THEN conjunct1]
  note B = th[THEN conjunct2, THEN conjunct1]
  note D = th[THEN conjunct2, THEN conjunct2, THEN conjunct2, THEN conjunct1]
  have agree: "?f = StateFile [(''weight'', 5)] \<and> wrap (model (the_system demo_moved)) \<le> 1
      \<and> set (map fst [(''weight'', 5::nat)]) = set (map fst (params (model (the_system demo_moved))))"
    by (simp add: demo_moved_placement)
  from D[THEN spec, of "[(''weight'', 5)]", THEN mp, OF agree] obtain s1 where
    run: "?r = (Inr ([], []), s1)"
    and p: "params (model (the_system s1))
              = map (\<lambda>(k, v). (k, case map_of [(''weight'', 5::nat)] k of Some v' \<Rightarrow> v' | None \<Rightarrow> v))
                  (params (model (the_system demo_moved)))"
    by (elim exE conjE)
  from run have s1: "s1 = snd ?r" and ok: "fst ?r = Inr ([], [])" by simp_all
  have pair: "?r = (fst ?r, snd ?r)" by simp
  from A[THEN mp, OF pair]
  have dev: "device (the_system (snd ?r)) = device (the_system demo_moved)" .
  have pair': "?r = (Inr ([], []), snd ?r)" using run s1 by simp
  from B[THEN mp, OF pair', THEN conjunct1]
  have res: "resident (model (the_system (snd ?r))) = device (the_system demo_moved)" .
  from p have par: "params (model (the_system (snd ?r))) = [(''weight'', 5)]"
    unfolding s1 by (simp add: demo_moved_placement)
  show ?thesis
    using ok res dev par demo_moved_placement by (simp only: simp_thms)
qed

subsection \<open>Training on several GPUs\<close>

text \<open>
  Claim C2 says that \<^verbatim>\<open>train_on_multi_gpus\<close> restores the facade's device on every exit
  path, also when the delegated training raises. The method has no handler around the
  call of \<^verbatim>\<open>train\<close>: an exception leaves it at once. Here the only batch lacks the
  input key, the training raises \<^verbatim>\<open>KeyError\<close>, and the facade that was on the CPU with a
  plain model is left on the CUDA device with the model still wrapped.
\<close>

theorem multi_gpu_not_restored_on_raise:
  "fst (the (fst (train_on_multi_gpus (Suc (Suc 0)) True demo_loss keyless None ''input'' None None 1
                    None demo_state))) = Inl (KeyError ''input'')
   \<and> device (the_system (snd (the (fst (train_on_multi_gpus (Suc (Suc 0)) True demo_loss keyless None
                                      ''input'' None None 1 None demo_state))))) = CUDA
   \<and> wrap (model (the_system (snd (the (fst (train_on_multi_gpus (Suc (Suc 0)) True demo_loss keyless
                                      None ''input'' None None 1 None demo_state)))))) = 1
   \<and> device (the_system demo_state) = CPU
   \<and> wrap (model (the_system demo_state)) = 0"
  by (simp add: facade_defs engine_defs demo_defs keyless_def
        cong: prod.case_cong_weak sum.case_cong_weak)

text \<open>
  Claim C2, amended. When \<^verbatim>\<open>train_on_multi_gpus\<close> returns, the facade's device is the
  one it had before the call, the model resides on it, and the model is the one the
  training left, with one replication layer taken off. When CUDA is available and the
  delegated training raises, the method raises the same exception and leaves the state
  as the training left it: nothing is restored.
\<close>

theorem multi_gpu_restores_on_return:
  "(fst (train_on_multi_gpus fuel cuda_is_available lw dl eval_dls key evs cbs k out_device s)
      = Some (Inr u, s') \<longrightarrow>
      device (the_system s') = device (the_system s)
      \<and> resident (model (the_system s')) = device (the_system s)
      \<and> (\<exists>h s3. fst (train fuel lw dl eval_dls key evs cbs k
                       (snd (to (case out_device of Some d \<Rightarrow> d | None \<Rightarrow> CUDA)
                          (snd (modify_system (\<lambda>sys. sys\<lparr>model := DataParallel (model sys)\<rparr>) s)))))
                   = Some (Inr h, s3)
             \<and> 0 < wrap (model (the_system s3))
             \<and> wrap (model (the_system s')) = wrap (model (the_system s3)) - 1))
   \<and> (cuda_is_available \<longrightarrow>
        fst (train fuel lw dl eval_dls key evs cbs k
               (snd (to (case out_device of Some d \<Rightarrow> d | None \<Rightarrow> CUDA)
                  (snd (modify_system (\<lambda>sys. sys\<lparr>model := DataParallel (model sys)\<rparr>) s)))))
          = Some (Inl e, s3) \<longrightarrow>
        fst (train_on_multi_gpus fuel cuda_is_available lw dl eval_dls key evs cbs k out_device s)
          = Some (Inl e, s3))"
proof -
  let ?s2 = "snd (to (case out_device of Some d \<Rightarrow> d | None \<Rightarrow> CUDA)
                  (snd (modify_system (\<lambda>sys. sys\<lparr>model := DataParallel (model sys)\<rparr>) s)))"
  let ?t = "train fuel lw dl eval_dls key evs cbs k ?s2"
  let ?m = "train_on_multi_gpus fuel cuda_is_available lw dl eval_dls key evs cbs k out_device s"
  have temp: "device (the_system (snd (modify_system (\<lambda>sys. sys\<lparr>model := DataParallel (model sys)\<rparr>) s)))
      = device (the_system s)"
    by (simp add: modify_system_def modify_context_def the_system_def)
  have A: "fst ?m = Some (Inr u, s') \<longrightarrow>
      device (the_system s') = device (the_system s)
      \<and> resident (model (the_system s')) = device (the_system s)
      \<and> (\<exists>h s3. fst ?t = Some (Inr h, s3)
             \<and> 0 < wrap (model (the_system s3))
             \<and> wrap (model (the_system s')) = wrap (model (the_system s3)) - 1)"
  proof
    assume r: "fst ?m = Some (Inr u, s')"
    then have av: cuda_is_available
      by (auto simp: train_on_multi_gpus_def split: if_splits)
    obtain res cbs' where t: "?t = (res, cbs')" by (cases ?t)
    from r av t obtain h s3 where res: "res = Some (Inr h, s3)"
      and fin: "pseq unwrap_model (to (device (the_system s))) s3 = (Inr u, s')"
      by (auto simp: train_on_multi_gpus_def Let_def temp split: option.splits sum.splits prod.splits)
    from fin have w: "0 < wrap (model (the_system s3))"
      and s': "s' = snd (to (device (the_system s))
                 (snd (modify_system (\<lambda>sys. sys\<lparr>model := (model sys)\<lparr>wrap := wrap (model sys) - 1\<rparr>\<rparr>) s3)))"
      by (auto simp: pseq_def pbind_def unwrap_model_def raise_def modify_system_def
            modify_context_def to_def split: if_splits)
    have "device (the_system s') = device (the_system s)"
      and "resident (model (the_system s')) = device (the_system s)"
      and "wrap (model (the_system s')) = wrap (model (the_system s3)) - 1"
      by (simp_all add: s' to_def modify_system_def modify_context_def the_system_def model_to_def)
    with w t res show "device (the_system s') = device (the_system s)
      \<and> resident (model (the_system s')) = device (the_system s)
      \<and> (\<exists>h s3. fst ?t = Some (Inr h, s3)
             \<and> 0 < wrap (model (the_system s3))
             \<and> wrap (model (the_system s')) = wrap (model (the_system s3)) - 1)"
      by auto
  qed
  have B: "cuda_is_available \<longrightarrow> fst ?t = Some (Inl e, s3) \<longrightarrow> fst ?m = Some (Inl e, s3)"
    by (auto simp: train_on_multi_gpus_def Let_def split: prod.splits)
  from A B show ?thesis by blast
qed

theorem multi_gpu_restores_on_return_witness:
  "fst (train_on_multi_gpus (Suc (Suc 0)) True demo_loss two None ''input'' None None 1 None demo_state)
     = Some (Inr (), snd (the (fst (train_on_multi_gpus (Suc (Suc 0)) True demo_loss two None
                                      ''input'' None None 1 None demo_state))))
   \<and> device (the_system (snd (the (fst (train_on_multi_gpus (Suc (Suc 0)) True demo_loss two None
                                      ''input'' None None 1 None demo_state))))) = CPU"
proof -
  let ?m = "fst (train_on_multi_gpus (Suc (Suc 0)) True demo_loss two None ''input'' None None 1 None demo_state)"
  have r: "?m = Some (Inr (), snd (the ?m))"
    using demo_multi_gpu by (cases ?m) auto
  from multi_gpu_restores_on_return[of "Suc (Suc 0)" True demo_loss two None "''input''" None None 1 None
         demo_state "()" "snd (the ?m)"] r
  have "device (the_system (snd (the ?m))) = device (the_system demo_state)" by blast
  with r show ?thesis by (simp only: demo_device) 
qed

subsection \<open>The results history\<close>

text \<open>
  Claim C6. In every run that returns, with callbacks and a loss computation that do not
  write the results history themselves: the history the run returns is the history it
  started from with entries appended, at most one per completed epoch; exactly one per
  epoch when both the evaluation data loaders and the evaluators were supplied, and none
  when either is absent. Each evaluation step that returns appends exactly one entry when
  both are there, and nothing otherwise. (\<^verbatim>\<open>train\<close> starts from the empty history.)
\<close>

theorem history_one_entry_per_epoch:
  assumes "run fuel tr s = Some (Inr history, s')" and "keeps_history tr"
  shows "(\<exists>m ys. trace s' = trace s @ run_events tr (grad_enabled s) m
            \<and> history = results_history (training_context s) @ ys
            \<and> length ys \<le> m
            \<and> (evaluation_configured tr \<longrightarrow> length ys = m)
            \<and> (\<not> evaluation_configured tr \<longrightarrow> ys = []))
       \<and> (\<forall>evs s0 evs1 s1. train_evaluation tr evs s0 = (Inr evs1, s1) \<longrightarrow>
             (\<exists>ys. results_history (training_context s1)
                      = results_history (training_context s0) @ ys
                \<and> length ys
                      = (if evaluation_data_loaders tr \<noteq> None \<and> evs \<noteq> None then 1 else 0)))"
proof -
  from assms(1) obtain s1 evs' s2 s3 where
    a: "for_callbacks on_training_start (callbacks tr) s = (Inr (), s1)" and
    b: "training_loop fuel tr (evaluators tr) s1 = Some (Inr evs', s2)" and
    c: "for_callbacks on_training_end (callbacks tr) s2 = (Inr (), s3)" and
    d: "model_train False s3 = (Inr (), s')" and
    e: "history = results_history (training_context s')"
    by (auto simp: run_def pseq_Inr split: prod.splits sum.splits option.splits)
  from for_callbacks_Inr[OF a] have 1: "trace s1 = trace s @ hooks on_training_start (callbacks tr)"
    "grad_enabled s1 = grad_enabled s" by simp_all
  from training_loop_history[OF b refl assms(2)] obtain m ys where
    2: "trace s2 = trace s1 @ concat (replicate m (iteration_events tr (grad_enabled s1))) @
              [ReadStop True]" "grad_enabled s2 = grad_enabled s1"
      "results_history (training_context s2) = results_history (training_context s1) @ ys"
      "length ys = (if evaluation_configured tr then m else 0)"
    by blast
  from for_callbacks_Inr[OF c] have 3: "trace s3 = trace s2 @ hooks on_training_end (callbacks tr)"
    by simp
  from d have 4: "trace s' = trace s3 @ [ModelTrain False]"
    "results_history (training_context s') = results_history (training_context s3)"
    by (simp_all add: model_train_Inr)
  have t: "trace s' = trace s @ run_events tr (grad_enabled s) m"
    by (simp add: 1 2 3 4 run_events_def)
  have h: "history = results_history (training_context s) @ ys"
    by (simp add: e 4 hooks_history[OF assms(2) c] 2 hooks_history[OF assms(2) a])
  have "length ys \<le> m \<and> (evaluation_configured tr \<longrightarrow> length ys = m)
            \<and> (\<not> evaluation_configured tr \<longrightarrow> ys = [])"
    using 2(4) by (auto split: if_splits)
  with t h have A: "\<exists>m ys. trace s' = trace s @ run_events tr (grad_enabled s) m
            \<and> history = results_history (training_context s) @ ys
            \<and> length ys \<le> m
            \<and> (evaluation_configured tr \<longrightarrow> length ys = m)
            \<and> (\<not> evaluation_configured tr \<longrightarrow> ys = [])"
    by blast
  from evaluation_history[OF assms(2)] A show ?thesis by blast
qed

theorem history_one_entry_per_epoch_witness:
  "run (Suc (Suc 0)) demo_eval_trainer demo_state
     = Some (Inr [[(''dev'', [(''acc'', 3)])]],
             snd (the (run (Suc (Suc 0)) demo_eval_trainer demo_state)))
   \<and> keeps_history demo_eval_trainer
   \<and> evaluation_configured demo_eval_trainer
   \<and> (\<exists>m. trace (snd (the (run (Suc (Suc 0)) demo_eval_trainer demo_state)))
            = run_events demo_eval_trainer True m
          \<and> length [[(''dev'', [(''acc'', 3::nat)])]] = m)"
proof -
  from history_one_entry_per_epoch[OF demo_eval_run_returns demo_eval_keeps_history]
  obtain m ys where
    "trace (snd (the (run (Suc (Suc 0)) demo_eval_trainer demo_state)))
       = trace demo_state @ run_events demo_eval_trainer (grad_enabled demo_state) m"
    "[[(''dev'', [(''acc'', 3::nat)])]] = results_history (training_context demo_state) @ ys"
    "evaluation_configured demo_eval_trainer \<longrightarrow> length ys = m"
    by blast
  then have "trace (snd (the (run (Suc (Suc 0)) demo_eval_trainer demo_state)))
            = run_events demo_eval_trainer True m
          \<and> length [[(''dev'', [(''acc'', 3::nat)])]] = m"
    using demo_eval_configured by (simp add: demo_trace demo_grad demo_history)
  with demo_eval_run_returns demo_eval_keeps_history demo_eval_configured
  show ?thesis by blast
qed

subsection \<open>The default stopping criterion\<close>

text \<open>
  Claim C7. When the supplied callbacks hold no stopping criterion (or no callbacks are
  supplied), and the supplied callbacks and the loss computation leave the halt flag, the
  epoch index and the history alone: the engine's list of callbacks is the supplied one
  with the default criterion for one epoch at its end; with fuel for two readings of the
  flag the run ends (it returns or raises); and when it returns, it has run exactly one
  epoch, and the history it returns has length 1 if evaluation data loaders and
  evaluators were supplied, and length 0 otherwise.
\<close>

theorem default_criterion_one_epoch:
  assumes "\<not> list_ex is_stopping_criterion (supplied cbs)"
    and "\<forall>cb\<in>set (supplied cbs). quiet cb"
    and "quiet_loss lw"
    and "2 \<le> fuel"
  shows "callbacks (fst (Trainer_init lw dl eval_dls key evs cbs k))
           = supplied cbs @ [NumberOfEpochsStoppingCriterionCallback 1]
       \<and> fst (train fuel lw dl eval_dls key evs cbs k s) \<noteq> None
       \<and> (\<forall>history s'. fst (train fuel lw dl eval_dls key evs cbs k s) = Some (Inr history, s') \<longrightarrow>
             trace s' = trace s @
               run_events (fst (Trainer_init lw dl eval_dls key evs cbs k)) (grad_enabled s) 1
           \<and> length history = (if eval_dls \<noteq> None \<and> evs \<noteq> None then 1 else 0))"
proof -
  define tr where "tr = fst (Trainer_init lw dl eval_dls key evs cbs k)"
  define s0 where "s0 = s\<lparr>training_context :=
                 Trainer_context (system (training_context s)) (extra (training_context s))\<rparr>"
  define f where "f = fuel - 2"
  from assms(4) have f: "fuel = Suc (Suc f)"
    by (simp add: f_def)
  have t: "fst (train fuel lw dl eval_dls key evs cbs k s) = run (Suc (Suc f)) tr s0"
    unfolding train_def tr_def s0_def f by (simp add: case_prod_beta Let_def)
  have cb: "callbacks tr = supplied cbs @ [NumberOfEpochsStoppingCriterionCallback 1]"
    unfolding tr_def by (rule default_injected[OF assms(1)])
  have lw: "quiet_loss (calculate_loss tr)"
    using assms(3) by (simp add: tr_def Trainer_init_fields)
  have e: "current_epoch (training_context s0) = - 1"
    and ns: "\<not> stop_training (training_context s0)"
    and h0: "results_history (training_context s0) = []"
    and tg: "trace s0 = trace s" "grad_enabled s0 = grad_enabled s"
    by (simp_all add: s0_def Trainer_context_def)
  have conf: "evaluation_configured tr = (eval_dls \<noteq> None \<and> evs \<noteq> None)"
    by (simp add: tr_def evaluation_configured_def Trainer_init_fields)
  note one = single_epoch_run[OF cb assms(2) lw e ns, of f]
  have ret: "trace s' = trace s @ run_events tr (grad_enabled s) 1
        \<and> length history = (if eval_dls \<noteq> None \<and> evs \<noteq> None then 1 else 0)"
    if r: "run (Suc (Suc f)) tr s0 = Some (Inr history, s')" for history s'
  proof -
    from one(2)[OF r] obtain ys where
      "trace s' = trace s0 @ run_events tr (grad_enabled s0) 1"
      "history = results_history (training_context s0) @ ys"
      "length ys = (if evaluation_configured tr then 1 else 0)"
      by blast
    then show ?thesis by (simp add: h0 tg conf)
  qed
  have "callbacks tr = supplied cbs @ [NumberOfEpochsStoppingCriterionCallback 1]
       \<and> run (Suc (Suc f)) tr s0 \<noteq> None
       \<and> (\<forall>history s'. run (Suc (Suc f)) tr s0 = Some (Inr history, s') \<longrightarrow>
             trace s' = trace s @ run_events tr (grad_enabled s) 1
           \<and> length history = (if eval_dls \<noteq> None \<and> evs \<noteq> None then 1 else 0))"
    using cb one(1) ret by blast
  then show ?thesis
    unfolding t tr_def .
qed

theorem default_criterion_one_epoch_witness:
  "\<not> list_ex is_stopping_criterion (supplied (Some [demo_callback]))
   \<and> quiet demo_callback
   \<and> quiet_loss demo_loss
   \<and> map_option fst (fst (train (Suc (Suc 0)) demo_loss two (Some [(''dev'', [demo_batch 7])]) ''input''
                          (Some [(''acc'', demo_evaluator)]) (Some [demo_callback]) 1 demo_state))
       = Some (Inr [[(''dev'', [(''acc'', 3)])]])
   \<and> length [[(''dev'', [(''acc'', 3::nat)])]] = 1
   \<and> callbacks (fst (Trainer_init demo_loss two (Some [(''dev'', [demo_batch 7])]) ''input''
                          (Some [(''acc'', demo_evaluator)]) (Some [demo_callback]) 1))
       = [demo_callback, NumberOfEpochsStoppingCriterionCallback 1]"
proof -
  have a: "\<not> list_ex is_stopping_criterion (supplied (Some [demo_callback]))"
    by (simp add: supplied_def demo_callback_def)
  have b: "\<forall>cb\<in>set (supplied (Some [demo_callback])). quiet cb"
    by (simp add: supplied_def demo_quiet)
  have c: "2 \<le> Suc (Suc 0)" by simp
  from default_criterion_one_epoch[OF a b demo_quiet_loss c,
         of two "Some [(''dev'', [demo_batch 7])]" "''input''" "Some [(''acc'', demo_evaluator)]" 1 demo_state]
  have "callbacks (fst (Trainer_init demo_loss two (Some [(''dev'', [demo_batch 7])]) ''input''
                          (Some [(''acc'', demo_evaluator)]) (Some [demo_callback]) 1))
       = supplied (Some [demo_callback]) @ [NumberOfEpochsStoppingCriterionCallback 1]"
    by blast
  with a demo_quiet demo_quiet_loss demo_train show ?thesis
    by (simp add: supplied_def)
qed

end
